theory Spec2Isabelle
  imports Main "HOL-Library.Word"
begin

section \<open>JavaScript values used by the oracle client\<close>

text \<open>
  The client is the class \<open>NGNUSDOracle\<close>. Its methods are asynchronous. A method is
  modelled first as a function from the object's state to a result and a new state: the
  method from its call to its settlement, with no other call on the object running in
  between. The section on overlapping calls has the two cache reads from one \<open>await\<close> to
  the next, with other calls running in between. A rejected promise (a \<open>throw\<close>) is the
  left injection of a sum, a resolved one the right injection.

  An \<open>await\<close> may resolve with \<open>undefined\<close>; \<open>'a jsval\<close> keeps that case apart from a
  proper value. The two cache fields start as \<open>null\<close>, which is \<open>None\<close> of an option
  around it.
\<close>

datatype 'a jsval = Undefined | Val 'a

text \<open>
  Of an error object the code reads \<open>error.info?.error?.message\<close>, \<open>error.code\<close>,
  \<open>error.error?.message\<close> and \<open>error.message\<close>. An absent field is \<open>None\<close>;
  \<open>code\<close> is \<open>None\<close> also when it is not a number.
\<close>

record js_error =
  info_error_message :: "string option"
  code :: "int option"
  error_message :: "string option"
  message :: string

fun startsWith :: "string \<Rightarrow> string \<Rightarrow> bool" where
  "startsWith _ [] = True"
| "startsWith [] (p # ps) = False"
| "startsWith (c # cs) (p # ps) = (c = p \<and> startsWith cs ps)"

fun str_includes :: "string \<Rightarrow> string \<Rightarrow> bool" where
  "str_includes [] pat = (pat = [])"
| "str_includes (c # cs) pat = (startsWith (c # cs) pat \<or> str_includes cs pat)"

definition isRateLimit :: "js_error \<Rightarrow> bool" where
  "isRateLimit err =
     ((case info_error_message err of None \<Rightarrow> False | Some m \<Rightarrow> str_includes m ''rate limit'')
      \<or> code err = Some (- 32016))"

definition isFilterError :: "js_error \<Rightarrow> bool" where
  "isFilterError err =
     (case error_message err of None \<Rightarrow> False | Some m \<Rightarrow> str_includes m ''filter not found'')"

text \<open>The \<open>TypeError\<close> of reading a property of \<open>undefined\<close>.\<close>

definition TypeError :: "string \<Rightarrow> js_error" where
  "TypeError prop =
     \<lparr>info_error_message = None, code = None, error_message = None,
      message = ''Cannot read properties of undefined (reading '' @ prop @ '')''\<rparr>"

subsection \<open>Numbers\<close>

text \<open>
  A JavaScript number is an IEEE-754 binary64 value. \<open>Fin m e\<close> is the finite value
  \<open>m * 2 ^ e\<close>, kept with \<open>m\<close> odd (or \<open>Fin 0 0\<close> for zero) so that equal values are equal
  terms. Division rounds the exact quotient to 53 significant bits, ties to even. The
  exponent range is not bounded: the values that reach the arithmetic are an \<open>int256\<close>
  answer and a power of ten with a \<open>uint8\<close> exponent (the ABI's types), whose quotient and
  its reciprocal lie between \<open>10 ^ 255\<close> and its inverse, well inside the normal range of
  binary64; for the same reason a negative zero never arises.
\<close>

datatype jsnum = Fin int int | PosInf | NegInf | NaN

function ilog2 :: "int \<Rightarrow> int" where
  "ilog2 n = (if n < 2 then 0 else 1 + ilog2 (n div 2))"
  by pat_completeness auto
termination
  by (relation "measure nat") auto

declare ilog2.simps [simp del]

function norm2 :: "int \<Rightarrow> int \<Rightarrow> jsnum" where
  "norm2 m e =
     (if m = 0 then Fin 0 0 else if even m then norm2 (m div 2) (e + 1) else Fin m e)"
  by pat_completeness auto
termination
  by (relation "measure (\<lambda>(m, e). nat \<bar>m\<bar>)") auto

declare norm2.simps [simp del]

text \<open>
  \<open>round_ratio p q\<close>, for positive \<open>p\<close> and \<open>q\<close>: with \<open>l\<close> the binary exponent of
  \<open>p / q\<close> (so \<open>2 ^ l \<le> p / q < 2 ^ (l + 1)\<close>), the quotient is scaled by \<open>2 ^ (52 - l)\<close>
  into \<open>[2 ^ 52, 2 ^ 53)\<close> and rounded to the nearest integer, ties to even.
\<close>

definition round_ratio :: "int \<Rightarrow> int \<Rightarrow> int \<times> int" where
  "round_ratio p q =
     (let k = ilog2 p - ilog2 q;
          l = (if q * 2 ^ nat k \<le> p * 2 ^ nat (- k) then k else k - 1);
          e = l - 52;
          N = p * 2 ^ nat (- e);
          D = q * 2 ^ nat e;
          f = N div D;
          r = N mod D;
          n = (if 2 * r < D then f else if D < 2 * r then f + 1
               else if even f then f else f + 1)
      in (n, e))"

definition js_round :: "int \<Rightarrow> int \<Rightarrow> jsnum" where
  "js_round p q =
     (let (n, e) = round_ratio \<bar>p\<bar> \<bar>q\<bar>
      in norm2 (if (p < 0) = (q < 0) then n else - n) e)"

text \<open>The operator \<open>/\<close> on numbers.\<close>

fun js_div :: "jsnum \<Rightarrow> jsnum \<Rightarrow> jsnum" where
  "js_div NaN _ = NaN"
| "js_div _ NaN = NaN"
| "js_div (Fin m1 e1) (Fin m2 e2) =
     (if m2 = 0 then (if m1 = 0 then NaN else if 0 < m1 then PosInf else NegInf)
      else if m1 = 0 then Fin 0 0
      else js_round (m1 * 2 ^ nat (e1 - e2)) (m2 * 2 ^ nat (e2 - e1)))"
| "js_div (Fin m e) _ = Fin 0 0"
| "js_div PosInf (Fin m e) = (if 0 \<le> m then PosInf else NegInf)"
| "js_div NegInf (Fin m e) = (if 0 \<le> m then NegInf else PosInf)"
| "js_div _ _ = NaN"

text \<open>\<open>Number(x)\<close> of a BigInt, and of an awaited value that may be \<open>undefined\<close>.\<close>

definition Number_of_bigint :: "int \<Rightarrow> jsnum" where
  "Number_of_bigint i = (if i = 0 then Fin 0 0 else js_round i 1)"

definition Number_signed :: "256 word jsval \<Rightarrow> jsnum" where
  "Number_signed x = (case x of Undefined \<Rightarrow> NaN | Val w \<Rightarrow> Number_of_bigint (sint w))"

definition Number_unsigned :: "256 word \<Rightarrow> jsnum" where
  "Number_unsigned w = Number_of_bigint (uint w)"

text \<open>
  \<open>Math.pow(10, decimals)\<close>. The cached \<open>decimals\<close> is \<open>Number\<close> of a \<open>uint8\<close>, which is
  exact, or \<open>undefined\<close>, which makes the power \<open>NaN\<close>. The correctly rounded power is
  taken. Up to \<open>10 ^ 22\<close> it is the exact power; above, the language leaves the last bit of
  \<open>Math.pow\<close> to the engine, whose value may differ in that bit from the one taken here.
\<close>

definition Math_pow10 :: "8 word jsval \<Rightarrow> jsnum" where
  "Math_pow10 d = (case d of Undefined \<Rightarrow> NaN | Val w \<Rightarrow> js_round (10 ^ unat w) 1)"

subsection \<open>Number.prototype.toFixed\<close>

function digits :: "nat \<Rightarrow> string" where
  "digits n = (if n < 10 then [''0123456789'' ! n]
               else digits (n div 10) @ [''0123456789'' ! (n mod 10)])"
  by pat_completeness auto
termination
  by (relation "measure id") auto

declare digits.simps [simp del]

function pad_zeros :: "nat \<Rightarrow> string \<Rightarrow> string" where
  "pad_zeros k ds = (if length ds < k then pad_zeros k (CHR ''0'' # ds) else ds)"
  by pat_completeness auto
termination
  by (relation "measure (\<lambda>(k, ds). k - length ds)") auto

declare pad_zeros.simps [simp del]

definition round_half_up :: "int \<Rightarrow> int \<Rightarrow> int" where
  "round_half_up N D = (2 * N + D) div (2 * D)"

definition place_point :: "nat \<Rightarrow> string \<Rightarrow> string" where
  "place_point f ds =
     (if f = 0 then ds
      else take (length (pad_zeros (f + 1) ds) - f) (pad_zeros (f + 1) ds) @ ''.'' @
           drop (length (pad_zeros (f + 1) ds) - f) (pad_zeros (f + 1) ds))"

text \<open>
  \<open>x.toFixed(f)\<close>: \<open>NaN\<close> and the infinities print by name; a finite \<open>x\<close> prints the
  integer nearest to \<open>x * 10 ^ f\<close> (the larger one on a tie) with the point \<open>f\<close> digits
  from the right. From \<open>10 ^ 21\<close> on the method falls back to \<open>Number::toString\<close>, which
  is the parameter \<open>big\<close> (given mantissa and exponent of the absolute value).
\<close>

definition toFixed :: "(int \<Rightarrow> int \<Rightarrow> string) \<Rightarrow> jsnum \<Rightarrow> nat \<Rightarrow> string" where
  "toFixed big x f =
     (case x of
        NaN \<Rightarrow> ''NaN''
      | PosInf \<Rightarrow> ''Infinity''
      | NegInf \<Rightarrow> ''-Infinity''
      | Fin m e \<Rightarrow>
          (if m < 0 then ''-'' else []) @
          (if 10 ^ 21 * 2 ^ nat (- e) \<le> \<bar>m\<bar> * 2 ^ nat e then big \<bar>m\<bar> e
           else place_point f
                  (digits (nat (round_half_up (\<bar>m\<bar> * 2 ^ nat e * 10 ^ f) (2 ^ nat (- e)))))))"

definition int_str :: "int \<Rightarrow> string" where
  "int_str i = (if i < 0 then ''-'' @ digits (nat (- i)) else digits (nat i))"

section \<open>The remote provider and the runtime\<close>

text \<open>
  The contract's values have the types of the ABI in \<open>src/abi/oracleAbi.js\<close>:
  \<open>decimals\<close> is a \<open>uint8\<close>, an answer an \<open>int256\<close>, a round identifier a \<open>uint80\<close>
  (\<open>uint256\<close> in the event), a time a \<open>uint256\<close>.
\<close>

record raw_event =
  ev_blockNumber :: int
  ev_transactionHash :: string
  ev_current :: "256 word"
  ev_roundId :: "256 word"
  ev_updatedAt :: "256 word"

record round_data =
  rd_roundId :: "80 word"
  rd_answer :: "256 word"
  rd_startedAt :: "256 word"
  rd_updatedAt :: "256 word"
  rd_answeredInRound :: "80 word"

text \<open>
  What lies outside the class is a parameter: the answer of each remote call, as a function
  of the endpoint the calling handle is bound to (\<open>None\<close> for an \<open>undefined\<close> URL) and of
  the number of remote calls made before it, and the library functions whose text is not
  modelled: \<open>new Date().toISOString()\<close>, \<open>new Date(Number(t) * 1000).toISOString()\<close> (a
  \<open>RangeError\<close> for an invalid date), \<open>Number::toString\<close> from \<open>10 ^ 21\<close> on and the
  printing of \<open>intervalMs / 1000\<close>. The bounds of a log query are \<open>fromBlock\<close> (\<open>None\<close>
  when it is \<open>NaN\<close>) and \<open>toBlock\<close>.
\<close>

record provider_env =
  rpc_decimals :: "string option \<Rightarrow> nat \<Rightarrow> js_error + 8 word"
  rpc_description :: "string option \<Rightarrow> nat \<Rightarrow> js_error + string"
  rpc_latestAnswer :: "string option \<Rightarrow> nat \<Rightarrow> js_error + 256 word"
  rpc_latestRoundData :: "string option \<Rightarrow> nat \<Rightarrow> js_error + round_data"
  rpc_getBlockNumber :: "string option \<Rightarrow> nat \<Rightarrow> js_error + int"
  rpc_queryFilter :: "int option \<Rightarrow> int jsval \<Rightarrow> string option \<Rightarrow> nat \<Rightarrow> js_error + raw_event list"
  date_now :: "nat \<Rightarrow> string"
  date_of_seconds :: "jsnum \<Rightarrow> js_error + string"
  number_toString :: "int \<Rightarrow> int \<Rightarrow> string"
  seconds_toString :: "nat \<Rightarrow> string"

datatype request =
  Decimals | Description | LatestAnswer | LatestRoundData | GetBlockNumber
| QueryFilter "int option" "int jsval"

text \<open>
  What a run does besides changing the object is kept in a trace: the lines written to the
  console (their text without emoji and line breaks; an error object or message given as
  a second argument is kept beside the text), the waits (\<open>setTimeout\<close> under \<open>await\<close>)
  and the remote calls.
\<close>

datatype effect =
  Console string
| ConsoleError string js_error
| ConsoleErrorMessage string string
| Timeout nat
| Call request

section \<open>The object\<close>

text \<open>
  \<open>provider\<close> is the endpoint the \<open>JsonRpcProvider\<close> was built with, \<open>contract\<close> the
  \<open>ethers.Contract\<close>: the provider it is bound to and the listeners installed on it with
  \<open>on\<close>. \<open>activeListeners\<close> is the \<open>Map\<close> from event name to listener, in insertion
  order; a listener is named by a number. \<open>monitorInterval\<close> is the period of the installed
  timer. The fields \<open>wallet\<close> and \<open>eventListeners\<close> are never read and are left out.
\<close>

record contract_handle =
  c_provider :: "string option"
  c_listeners :: "(string \<times> nat) list"

record NGNUSDOracle =
  rpcIndex :: nat
  rpcEndpoints :: "string list"
  provider :: "string option"
  contract :: contract_handle
  cachedDecimals :: "8 word jsval option"
  cachedDescription :: "string jsval option"
  activeListeners :: "(string \<times> nat) list"
  monitorInterval :: "nat option"
  clock :: nat
  trace :: "effect list"

definition console_log :: "string \<Rightarrow> NGNUSDOracle \<Rightarrow> NGNUSDOracle" where
  "console_log msg s = s\<lparr>trace := trace s @ [Console msg]\<rparr>"

definition console_error :: "string \<Rightarrow> js_error \<Rightarrow> NGNUSDOracle \<Rightarrow> NGNUSDOracle" where
  "console_error msg err s = s\<lparr>trace := trace s @ [ConsoleError msg err]\<rparr>"

definition console_error_message :: "string \<Rightarrow> string \<Rightarrow> NGNUSDOracle \<Rightarrow> NGNUSDOracle" where
  "console_error_message msg m s = s\<lparr>trace := trace s @ [ConsoleErrorMessage msg m]\<rparr>"

definition setTimeout :: "nat \<Rightarrow> NGNUSDOracle \<Rightarrow> NGNUSDOracle" where
  "setTimeout delay s = s\<lparr>trace := trace s @ [Timeout delay]\<rparr>"

text \<open>
  A remote call through \<open>this.contract\<close>, and one through \<open>this.provider\<close>. Each
  advances the count of calls and is written to the trace.
\<close>

definition record_call :: "request \<Rightarrow> NGNUSDOracle \<Rightarrow> NGNUSDOracle" where
  "record_call req s = s\<lparr>clock := clock s + 1, trace := trace s @ [Call req]\<rparr>"

definition contract_call ::
  "request \<Rightarrow> (string option \<Rightarrow> nat \<Rightarrow> js_error + 'a) \<Rightarrow> NGNUSDOracle \<Rightarrow> (js_error + 'a) \<times> NGNUSDOracle" where
  "contract_call req rpc s = (rpc (c_provider (contract s)) (clock s), record_call req s)"

definition provider_call ::
  "request \<Rightarrow> (string option \<Rightarrow> nat \<Rightarrow> js_error + 'a) \<Rightarrow> NGNUSDOracle \<Rightarrow> (js_error + 'a) \<times> NGNUSDOracle" where
  "provider_call req rpc s = (rpc (provider s) (clock s), record_call req s)"

subsection \<open>Endpoint pool and transport handle\<close>

definition RPC_ENDPOINTS :: "string list" where
  "RPC_ENDPOINTS =
     [''https://mainnet.base.org'', ''https://base.llamarpc.com'',
      ''https://base.drpc.org'', ''https://base.meowrpc.com'']"

text \<open>\<open>this.rpcEndpoints[this.rpcIndex]\<close>: \<open>undefined\<close> out of range.\<close>

definition endpoint_at :: "string list \<Rightarrow> nat \<Rightarrow> string option" where
  "endpoint_at xs i = (if i < length xs then Some (xs ! i) else None)"

definition url_str :: "string option \<Rightarrow> string" where
  "url_str u = (case u of None \<Rightarrow> ''undefined'' | Some x \<Rightarrow> x)"

definition initializeProvider :: "NGNUSDOracle \<Rightarrow> NGNUSDOracle" where
  "initializeProvider s =
     console_log (''Using RPC endpoint: '' @ url_str (endpoint_at (rpcEndpoints s) (rpcIndex s)))
       (s\<lparr>provider := endpoint_at (rpcEndpoints s) (rpcIndex s)\<rparr>)"

definition new_contract :: "NGNUSDOracle \<Rightarrow> NGNUSDOracle" where
  "new_contract s = s\<lparr>contract := \<lparr>c_provider = provider s, c_listeners = []\<rparr>\<rparr>"

text \<open>The constructor; building the wallet from the private key is left out.\<close>

definition new_oracle :: NGNUSDOracle where
  "new_oracle =
     console_log ''Oracle initialized with address:''
       (new_contract
         (initializeProvider
           \<lparr>rpcIndex = 0, rpcEndpoints = RPC_ENDPOINTS, provider = None,
            contract = \<lparr>c_provider = None, c_listeners = []\<rparr>,
            cachedDecimals = None, cachedDescription = None,
            activeListeners = [], monitorInterval = None, clock = 0, trace = []\<rparr>))"

text \<open>
  \<open>contract.removeAllListeners()\<close> and \<open>contract.on\<close> are taken to succeed, so the
  \<open>catch\<close> around each of them is never entered.
\<close>

definition removeAllListeners :: "NGNUSDOracle \<Rightarrow> NGNUSDOracle" where
  "removeAllListeners s = s\<lparr>contract := (contract s)\<lparr>c_listeners := []\<rparr>\<rparr>"

definition contract_on :: "string \<Rightarrow> nat \<Rightarrow> NGNUSDOracle \<Rightarrow> NGNUSDOracle" where
  "contract_on eventName listener s =
     s\<lparr>contract := (contract s)\<lparr>c_listeners := c_listeners (contract s) @ [(eventName, listener)]\<rparr>\<rparr>"

fun map_set :: "string \<Rightarrow> nat \<Rightarrow> (string \<times> nat) list \<Rightarrow> (string \<times> nat) list" where
  "map_set k v [] = [(k, v)]"
| "map_set k v ((k', v') # m) = (if k' = k then (k, v) # m else (k', v') # map_set k v m)"

fun reestablish_each :: "(string \<times> nat) list \<Rightarrow> NGNUSDOracle \<Rightarrow> NGNUSDOracle" where
  "reestablish_each [] s = s"
| "reestablish_each ((eventName, listener) # rest) s =
     reestablish_each rest
       ((contract_on eventName listener s)
          \<lparr>activeListeners := map_set eventName listener (activeListeners s)\<rparr>)"

definition reestablishEventListeners :: "NGNUSDOracle \<Rightarrow> NGNUSDOracle" where
  "reestablishEventListeners s = reestablish_each (activeListeners s) (s\<lparr>activeListeners := []\<rparr>)"

text \<open>
  \<open>rotateRPC\<close>. The pool is the constant of four endpoints and is never assigned again, so
  the modulus is never zero.
\<close>

definition rotateRPC :: "NGNUSDOracle \<Rightarrow> NGNUSDOracle" where
  "rotateRPC s =
     (let s1 = removeAllListeners s;
          s2 = initializeProvider (s1\<lparr>rpcIndex := (rpcIndex s1 + 1) mod length (rpcEndpoints s1)\<rparr>);
          s3 = new_contract s2;
          s4 = (if activeListeners s3 = [] then s3
                else reestablishEventListeners (console_log ''Re-establishing event listeners...'' s3))
      in console_log
           (''Rotated to RPC endpoint: '' @ url_str (endpoint_at (rpcEndpoints s4) (rpcIndex s4))) s4)"

subsection \<open>Retry executor\<close>

definition retry_notice :: "js_error \<Rightarrow> nat \<Rightarrow> nat \<Rightarrow> string" where
  "retry_notice err i retries =
     (if isRateLimit err then ''Rate limit'' else ''Filter error'') @
     '' hit, rotating RPC... (attempt '' @ digits (i + 1) @ ''/'' @ digits retries @ '')''"

text \<open>
  The loop \<open>for (let i = 0; i < retries; i++)\<close> of \<open>executeWithRetry\<close>, from counter
  \<open>i\<close> on. Falling out of the loop, the \<open>async\<close> function resolves with \<open>undefined\<close>.
\<close>

function executeWithRetry_from ::
  "nat \<Rightarrow> (NGNUSDOracle \<Rightarrow> (js_error + 'a) \<times> NGNUSDOracle) \<Rightarrow> nat \<Rightarrow> NGNUSDOracle \<Rightarrow> (js_error + 'a jsval) \<times> NGNUSDOracle" where
  "executeWithRetry_from i fn retries s =
     (if i < retries then
        (case fn s of
           (Inr v, s1) \<Rightarrow> (Inr (Val v), s1)
         | (Inl err, s1) \<Rightarrow>
             if isRateLimit err \<or> isFilterError err then
               executeWithRetry_from (i + 1) fn retries
                 (setTimeout (min (1000 * 2 ^ i) 10000)
                    (rotateRPC (console_log (retry_notice err i retries) s1)))
             else if i = retries - 1 then (Inl err, s1)
             else executeWithRetry_from (i + 1) fn retries s1)
      else (Inr Undefined, s))"
  by pat_completeness auto
termination
  by (relation "measure (\<lambda>(i, fn, retries, s). retries - i)") auto

declare executeWithRetry_from.simps [simp del]

definition executeWithRetry ::
  "(NGNUSDOracle \<Rightarrow> (js_error + 'a) \<times> NGNUSDOracle) \<Rightarrow> nat \<Rightarrow> NGNUSDOracle \<Rightarrow> (js_error + 'a jsval) \<times> NGNUSDOracle" where
  "executeWithRetry fn retries s = executeWithRetry_from 0 fn retries s"

subsection \<open>Static value cache\<close>

definition getDecimals :: "provider_env \<Rightarrow> NGNUSDOracle \<Rightarrow> (js_error + 8 word jsval) \<times> NGNUSDOracle" where
  "getDecimals env s =
     (case cachedDecimals s of
        None \<Rightarrow>
          (case executeWithRetry (contract_call Decimals (rpc_decimals env)) 3 s of
             (Inl err, s1) \<Rightarrow> (Inl err, s1)
           | (Inr v, s1) \<Rightarrow> (Inr v, s1\<lparr>cachedDecimals := Some v\<rparr>))
      | Some v \<Rightarrow> (Inr v, s))"

definition getDescription :: "provider_env \<Rightarrow> NGNUSDOracle \<Rightarrow> (js_error + string jsval) \<times> NGNUSDOracle" where
  "getDescription env s =
     (case cachedDescription s of
        None \<Rightarrow>
          (case executeWithRetry (contract_call Description (rpc_description env)) 3 s of
             (Inl err, s1) \<Rightarrow> (Inl err, s1)
           | (Inr v, s1) \<Rightarrow> (Inr v, s1\<lparr>cachedDescription := Some v\<rparr>))
      | Some v \<Rightarrow> (Inr v, s))"

subsection \<open>Quotes\<close>

record price =
  p_ngnToUsd :: jsnum
  p_usdToNgn :: jsnum
  p_decimals :: "8 word jsval"
  p_description :: "string jsval"
  p_formattedPrice :: string
  p_reversePrice :: string
  p_timestamp :: string

record round_info =
  r_roundId :: string
  r_answer :: jsnum
  r_ngnToUsd :: jsnum
  r_usdToNgn :: jsnum
  r_formattedPrice :: string
  r_reversePrice :: string
  r_startedAt :: jsnum
  r_updatedAt :: jsnum
  r_answeredInRound :: string
  r_updatedAtFormatted :: string

record historical_event =
  h_blockNumber :: int
  h_transactionHash :: string
  h_roundId :: string
  h_ngnToUsd :: jsnum
  h_usdToNgn :: jsnum
  h_formattedPrice :: string
  h_reversePrice :: string
  h_updatedAt :: jsnum
  h_updatedAtFormatted :: string

text \<open>
  The two template strings, which each of the three methods below builds in the same way:
  \<open>`1 USD = ${usdToNgn.toFixed(2)} NGN`\<close> and \<open>`1 NGN = ${ngnToUsd.toFixed(6)} USD`\<close>.
\<close>

definition formatted_price :: "provider_env \<Rightarrow> jsnum \<Rightarrow> string" where
  "formatted_price env usdToNgn = ''1 USD = '' @ toFixed (number_toString env) usdToNgn 2 @ '' NGN''"

definition reverse_price :: "provider_env \<Rightarrow> jsnum \<Rightarrow> string" where
  "reverse_price env ngnToUsd = ''1 NGN = '' @ toFixed (number_toString env) ngnToUsd 6 @ '' USD''"

text \<open>
  \<open>getCurrentPrice\<close>. The limiter \<open>limit\<close> holds a function back until those passed to
  it before have settled; for a call that is not held back, \<open>limit(f)\<close> is \<open>f()\<close>. The \<open>catch\<close> writes the error to the console and throws it again.
\<close>

definition getCurrentPrice :: "provider_env \<Rightarrow> NGNUSDOracle \<Rightarrow> (js_error + price) \<times> NGNUSDOracle" where
  "getCurrentPrice env s =
     (case getDecimals env s of
        (Inl err, s1) \<Rightarrow> (Inl err, console_error ''Error fetching current price:'' err s1)
      | (Inr decimals, s1) \<Rightarrow>
     (case getDescription env s1 of
        (Inl err, s2) \<Rightarrow> (Inl err, console_error ''Error fetching current price:'' err s2)
      | (Inr description, s2) \<Rightarrow>
     (case executeWithRetry (contract_call LatestAnswer (rpc_latestAnswer env)) 3 s2 of
        (Inl err, s3) \<Rightarrow> (Inl err, console_error ''Error fetching current price:'' err s3)
      | (Inr latestAnswer, s3) \<Rightarrow>
          (let ngnToUsd = js_div (Number_signed latestAnswer) (Math_pow10 decimals);
               usdToNgn = js_div (Fin 1 0) ngnToUsd
           in (Inr \<lparr>p_ngnToUsd = ngnToUsd, p_usdToNgn = usdToNgn, p_decimals = decimals,
                    p_description = description,
                    p_formattedPrice = formatted_price env usdToNgn,
                    p_reversePrice = reverse_price env ngnToUsd,
                    p_timestamp = date_now env (clock s3)\<rparr>, s3)))))"

text \<open>
  \<open>getLatestRoundData\<close>. When the awaited round data is \<open>undefined\<close>, reading its
  \<open>answer\<close> throws a \<open>TypeError\<close> inside the \<open>try\<close>.
\<close>

definition getLatestRoundData ::
  "provider_env \<Rightarrow> NGNUSDOracle \<Rightarrow> (js_error + round_info) \<times> NGNUSDOracle" where
  "getLatestRoundData env s =
     (case getDecimals env s of
        (Inl err, s1) \<Rightarrow> (Inl err, console_error ''Error fetching round data:'' err s1)
      | (Inr decimals, s1) \<Rightarrow>
     (case executeWithRetry (contract_call LatestRoundData (rpc_latestRoundData env)) 3 s1 of
        (Inl err, s2) \<Rightarrow> (Inl err, console_error ''Error fetching round data:'' err s2)
      | (Inr Undefined, s2) \<Rightarrow>
          (Inl (TypeError ''answer''),
           console_error ''Error fetching round data:'' (TypeError ''answer'') s2)
      | (Inr (Val roundData), s2) \<Rightarrow>
          (let ngnToUsd = js_div (Number_signed (Val (rd_answer roundData))) (Math_pow10 decimals);
               usdToNgn = js_div (Fin 1 0) ngnToUsd
           in case date_of_seconds env (Number_unsigned (rd_updatedAt roundData)) of
                Inl err \<Rightarrow> (Inl err, console_error ''Error fetching round data:'' err s2)
              | Inr updatedAtFormatted \<Rightarrow>
                  (Inr \<lparr>r_roundId = digits (unat (rd_roundId roundData)),
                        r_answer = Number_signed (Val (rd_answer roundData)),
                        r_ngnToUsd = ngnToUsd, r_usdToNgn = usdToNgn,
                        r_formattedPrice = formatted_price env usdToNgn,
                        r_reversePrice = reverse_price env ngnToUsd,
                        r_startedAt = Number_unsigned (rd_startedAt roundData),
                        r_updatedAt = Number_unsigned (rd_updatedAt roundData),
                        r_answeredInRound = digits (unat (rd_answeredInRound roundData)),
                        r_updatedAtFormatted = updatedAtFormatted\<rparr>, s2))))"

subsection \<open>Subscriptions\<close>

text \<open>
  \<open>setupEventListeners\<close>: the body that built the listener and installed it with
  \<open>this.contract.on\<close> is commented out in the source (``disabled due to filter issues'');
  what is left writes one line to the console.
\<close>

definition setupEventListeners :: "NGNUSDOracle \<Rightarrow> NGNUSDOracle" where
  "setupEventListeners s = console_log ''Event listeners disabled due to RPC filter limitations'' s"

subsection \<open>Historical queries\<close>

text \<open>
  \<open>processEvents\<close>: \<open>events.map\<close> throws a \<open>TypeError\<close> when \<open>events\<close> is
  \<open>undefined\<close>, and its callback throws one at an element that is \<open>undefined\<close>.
\<close>

definition process_event ::
  "provider_env \<Rightarrow> 8 word jsval \<Rightarrow> raw_event jsval \<Rightarrow> js_error + historical_event" where
  "process_event env decimals event =
     (case event of
        Undefined \<Rightarrow> Inl (TypeError ''args'')
      | Val ev \<Rightarrow>
          (let ngnToUsd = js_div (Number_signed (Val (ev_current ev))) (Math_pow10 decimals);
               usdToNgn = js_div (Fin 1 0) ngnToUsd
           in case date_of_seconds env (Number_unsigned (ev_updatedAt ev)) of
                Inl err \<Rightarrow> Inl err
              | Inr updatedAtFormatted \<Rightarrow>
                  Inr \<lparr>h_blockNumber = ev_blockNumber ev,
                       h_transactionHash = ev_transactionHash ev,
                       h_roundId = digits (unat (ev_roundId ev)),
                       h_ngnToUsd = ngnToUsd, h_usdToNgn = usdToNgn,
                       h_formattedPrice = formatted_price env usdToNgn,
                       h_reversePrice = reverse_price env ngnToUsd,
                       h_updatedAt = Number_unsigned (ev_updatedAt ev),
                       h_updatedAtFormatted = updatedAtFormatted\<rparr>))"

fun map_events ::
  "provider_env \<Rightarrow> 8 word jsval \<Rightarrow> raw_event jsval list \<Rightarrow> js_error + historical_event list" where
  "map_events env decimals [] = Inr []"
| "map_events env decimals (event # events) =
     (case process_event env decimals event of
        Inl err \<Rightarrow> Inl err
      | Inr r \<Rightarrow>
          (case map_events env decimals events of
             Inl err \<Rightarrow> Inl err
           | Inr rs \<Rightarrow> Inr (r # rs)))"

definition processEvents ::
  "provider_env \<Rightarrow> raw_event jsval list jsval \<Rightarrow> NGNUSDOracle \<Rightarrow>
   (js_error + historical_event list) \<times> NGNUSDOracle" where
  "processEvents env events s =
     (case getDecimals env s of
        (Inl err, s1) \<Rightarrow> (Inl err, s1)
      | (Inr decimals, s1) \<Rightarrow>
          (case events of
             Undefined \<Rightarrow> (Inl (TypeError ''map''), s1)
           | Val evs \<Rightarrow> (map_events env decimals evs, s1)))"

record batch =
  b_from :: int
  b_to :: int

text \<open>
  The loop \<open>for (let i = fromBlock; i <= currentBlock; i += batchSize)\<close> that fills
  \<open>batches\<close>. With a \<open>batchSize\<close> that is not positive it does not end; that is the value
  \<open>None\<close>.
\<close>

partial_function (option) push_batches :: "int \<Rightarrow> int \<Rightarrow> int \<Rightarrow> batch list \<Rightarrow> batch list option" where
  "push_batches i currentBlock batchSize batches =
     (if i \<le> currentBlock
      then push_batches (i + batchSize) currentBlock batchSize
             (batches @ [\<lparr>b_from = i, b_to = min (i + batchSize - 1) currentBlock\<rparr>])
      else Some batches)"

text \<open>
  \<open>fromBlock = currentBlock - blockRange\<close> is \<open>NaN\<close> when the head is \<open>undefined\<close>, and
  then the loop's test fails at once.
\<close>

definition from_block :: "int jsval \<Rightarrow> int \<Rightarrow> int option" where
  "from_block currentBlock blockRange =
     (case currentBlock of Undefined \<Rightarrow> None | Val c \<Rightarrow> Some (c - blockRange))"

definition make_batches :: "int option \<Rightarrow> int jsval \<Rightarrow> int \<Rightarrow> batch list option" where
  "make_batches fromBlock currentBlock batchSize =
     (case fromBlock of
        None \<Rightarrow> Some []
      | Some f \<Rightarrow>
          (case currentBlock of
             Undefined \<Rightarrow> Some []
           | Val c \<Rightarrow> push_batches f c batchSize []))"

text \<open>
  Windows that lie one after the other from block \<open>i\<close> on: each starts one block after
  the one before it ends, none ends after the head \<open>c\<close>, and the last one reaches it.
\<close>

fun contiguous :: "int \<Rightarrow> batch list \<Rightarrow> int \<Rightarrow> bool" where
  "contiguous i [] c = (c < i)"
| "contiguous i (b # bs) c = (b_from b = i \<and> b_from b \<le> b_to b \<and> b_to b \<le> c \<and> contiguous (b_to b + 1) bs c)"

definition query_window ::
  "provider_env \<Rightarrow> int option \<Rightarrow> int jsval \<Rightarrow> NGNUSDOracle \<Rightarrow>
   (js_error + raw_event list jsval) \<times> NGNUSDOracle" where
  "query_window env fromBlock toBlock s =
     executeWithRetry
       (contract_call (QueryFilter fromBlock toBlock) (rpc_queryFilter env fromBlock toBlock)) 3 s"

text \<open>The single query of a small range; its failure is caught by the outer \<open>catch\<close>.\<close>

definition query_single ::
  "provider_env \<Rightarrow> int option \<Rightarrow> int jsval \<Rightarrow> NGNUSDOracle \<Rightarrow>
   (js_error + historical_event list) \<times> NGNUSDOracle" where
  "query_single env fromBlock currentBlock s =
     (case query_window env fromBlock currentBlock s of
        (Inl err, s1) \<Rightarrow> (Inr [], console_error ''Error querying historical events:'' err s1)
      | (Inr Undefined, s1) \<Rightarrow> processEvents env Undefined s1
      | (Inr (Val events), s1) \<Rightarrow> processEvents env (Val (map Val events)) s1)"

text \<open>One batch's promise, with its own \<open>catch\<close> that resolves with the empty array.\<close>

definition query_batch ::
  "provider_env \<Rightarrow> batch \<Rightarrow> NGNUSDOracle \<Rightarrow> raw_event list jsval \<times> NGNUSDOracle" where
  "query_batch env b s =
     (case query_window env (Some (b_from b)) (Val (b_to b)) s of
        (Inl err, s1) \<Rightarrow>
          (Val [],
           console_error_message
             (''Error querying batch '' @ int_str (b_from b) @ ''-'' @ int_str (b_to b) @ '':'')
             (message err) s1)
      | (Inr r, s1) \<Rightarrow> (r, s1))"

fun query_batches ::
  "provider_env \<Rightarrow> batch list \<Rightarrow> NGNUSDOracle \<Rightarrow> raw_event list jsval list \<times> NGNUSDOracle" where
  "query_batches env [] s = ([], s)"
| "query_batches env (b # bs) s =
     (case query_batch env b s of
        (r, s1) \<Rightarrow> (case query_batches env bs s1 of (rs, s2) \<Rightarrow> (r # rs, s2)))"

text \<open>\<open>Array.prototype.flat\<close>: an element that is not an array stays as it is.\<close>

fun flat :: "'a list jsval list \<Rightarrow> 'a jsval list" where
  "flat [] = []"
| "flat (Undefined # rs) = Undefined # flat rs"
| "flat (Val xs # rs) = map Val xs @ flat rs"

definition query_batched ::
  "provider_env \<Rightarrow> batch list \<Rightarrow> NGNUSDOracle \<Rightarrow>
   (js_error + historical_event list) \<times> NGNUSDOracle" where
  "query_batched env batches s =
     (case query_batches env batches
             (console_log (''Querying in '' @ digits (length batches) @ '' batches...'') s) of
        (batchResults, s1) \<Rightarrow>
          processEvents env (Val (flat batchResults))
            (console_log
               (''Found '' @ digits (length (flat batchResults)) @ '' price update events'') s1))"

text \<open>
  \<open>queryHistoricalEvents\<close>. The promise of \<open>processEvents\<close> is returned without
  \<open>await\<close>, so its rejection passes by the \<open>catch\<close> and rejects the call.
\<close>

definition queryHistoricalEvents ::
  "provider_env \<Rightarrow> int \<Rightarrow> int \<Rightarrow> NGNUSDOracle \<Rightarrow>
   ((js_error + historical_event list) \<times> NGNUSDOracle) option" where
  "queryHistoricalEvents env blockRange batchSize s =
     (case executeWithRetry (provider_call GetBlockNumber (rpc_getBlockNumber env)) 3
             (console_log
                (''Querying historical events (last '' @ int_str blockRange @ '' blocks)...'') s) of
        (Inl err, s1) \<Rightarrow> Some (Inr [], console_error ''Error querying historical events:'' err s1)
      | (Inr currentBlock, s1) \<Rightarrow>
          if blockRange \<le> batchSize
          then Some (query_single env (from_block currentBlock blockRange) currentBlock s1)
          else (case make_batches (from_block currentBlock blockRange) currentBlock batchSize of
                  None \<Rightarrow> None
                | Some batches \<Rightarrow> Some (query_batched env batches s1)))"

subsection \<open>Continuous monitor\<close>

definition displayCurrentPrice ::
  "provider_env \<Rightarrow> NGNUSDOracle \<Rightarrow> (js_error + unit) \<times> NGNUSDOracle" where
  "displayCurrentPrice env s =
     (case getCurrentPrice env s of
        (Inl err, s1) \<Rightarrow> (Inl err, s1)
      | (Inr priceData, s1) \<Rightarrow>
          (Inr (),
           console_log (''   Last Checked: '' @ p_timestamp priceData)
             (console_log (''   '' @ p_reversePrice priceData)
               (console_log (''   '' @ p_formattedPrice priceData)
                 (console_log ''Current Exchange Rates:'' s1)))))"

text \<open>
  \<open>monitorPrice\<close> awaits the first \<open>displayCurrentPrice\<close> outside any \<open>try\<close> and then
  installs the timer; \<open>monitor_tick\<close> is the timer's callback, which has a \<open>try\<close>.
\<close>

definition monitorPrice ::
  "provider_env \<Rightarrow> nat \<Rightarrow> NGNUSDOracle \<Rightarrow> (js_error + unit) \<times> NGNUSDOracle" where
  "monitorPrice env intervalMs s =
     (case displayCurrentPrice env
             (console_log
                (''Starting price monitoring (interval: '' @ seconds_toString env intervalMs @ ''s)...'')
                s) of
        (Inl err, s1) \<Rightarrow> (Inl err, s1)
      | (Inr u, s1) \<Rightarrow> (Inr (), s1\<lparr>monitorInterval := Some intervalMs\<rparr>))"

definition monitor_tick :: "provider_env \<Rightarrow> NGNUSDOracle \<Rightarrow> NGNUSDOracle" where
  "monitor_tick env s =
     (case displayCurrentPrice env s of
        (Inl err, s1) \<Rightarrow> console_error_message ''Error during price monitoring:'' (message err) s1
      | (Inr u, s1) \<Rightarrow> s1)"

section \<open>What the methods are built from\<close>

text \<open>
  A property of the object is \<open>stable\<close> when the effects out of which the methods are
  built keep it: rotation, console output, waiting, the two cache reads, the remote calls
  other than those two, and installing the timer.
\<close>

definition stable :: "provider_env \<Rightarrow> (NGNUSDOracle \<Rightarrow> bool) \<Rightarrow> bool" where
  "stable env P =
     (\<forall>s. P s \<longrightarrow>
        P (rotateRPC s) \<and> (\<forall>m. P (console_log m s)) \<and> (\<forall>m e. P (console_error m e s))
      \<and> (\<forall>m x. P (console_error_message m x s)) \<and> (\<forall>d. P (setTimeout d s))
      \<and> P (snd (getDecimals env s)) \<and> P (snd (getDescription env s))
      \<and> P (record_call LatestAnswer s) \<and> P (record_call LatestRoundData s)
      \<and> P (record_call GetBlockNumber s) \<and> (\<forall>f t. P (record_call (QueryFilter f t) s))
      \<and> (\<forall>x. P (s\<lparr>monitorInterval := x\<rparr>)))"

text \<open>
  What one window contributes when the provider answers its query in the same way at every
  endpoint and time: its events, the empty array after an error that is thrown, and
  \<open>undefined\<close> after transient errors.
\<close>

definition window_result :: "js_error + raw_event list \<Rightarrow> raw_event list jsval" where
  "window_result r =
     (case r of
        Inr evs \<Rightarrow> Val evs
      | Inl err \<Rightarrow> if isRateLimit err \<or> isFilterError err then Undefined else Val [])"

section \<open>Calls that overlap\<close>

text \<open>
  An \<open>async\<close> method runs until its next \<open>await\<close>, and while it is suspended there other
  calls on the object run. \<open>getDecimals\<close> and \<open>getDescription\<close> are not passed through the
  limiter: \<open>processEvents\<close> calls \<open>getDecimals\<close> when the limited queries have settled, the
  HTTP routes share one object, and the command-line runner calls \<open>getDescription\<close>
  directly. So several of these calls can be in flight at once.

  A get call that found its cache field \<open>null\<close> is suspended inside \<open>executeWithRetry\<close>:
  at \<open>await fn()\<close> of iteration \<open>i\<close>, its request sent, or at the wait that follows a
  transient error in iteration \<open>i\<close>. A call that is not suspended has settled: it was
  rejected with an error or resolved with a value.
\<close>

datatype suspended = AwaitingReply nat | AwaitingTimer nat

datatype 'a progress = Suspended suspended | Settled "js_error + 'a jsval"

text \<open>
  The loop of \<open>executeWithRetry\<close> around one contract read, from one \<open>await\<close> to the next:
  the head of iteration \<open>i\<close>, where \<open>fn()\<close> sends the request (falling out of the loop
  resolves with \<open>undefined\<close>); what follows \<open>await fn()\<close> when the reply is there; and what
  follows the wait, which is the head of the next iteration.
\<close>

definition next_attempt :: "request \<Rightarrow> nat \<Rightarrow> nat \<Rightarrow> NGNUSDOracle \<Rightarrow> 'a progress \<times> NGNUSDOracle" where
  "next_attempt req i retries s =
     (if i < retries then (Suspended (AwaitingReply i), record_call req s)
      else (Settled (Inr Undefined), s))"

definition on_reply ::
  "request \<Rightarrow> nat \<Rightarrow> nat \<Rightarrow> js_error + 'a \<Rightarrow> NGNUSDOracle \<Rightarrow> 'a progress \<times> NGNUSDOracle" where
  "on_reply req i retries reply s =
     (case reply of
        Inr v \<Rightarrow> (Settled (Inr (Val v)), s)
      | Inl err \<Rightarrow>
          if isRateLimit err \<or> isFilterError err then
            (Suspended (AwaitingTimer i),
             setTimeout (min (1000 * 2 ^ i) 10000)
               (rotateRPC (console_log (retry_notice err i retries) s)))
          else if i = retries - 1 then (Settled (Inl err), s)
          else next_attempt req (i + 1) retries s)"

definition on_timer :: "request \<Rightarrow> nat \<Rightarrow> nat \<Rightarrow> NGNUSDOracle \<Rightarrow> 'a progress \<times> NGNUSDOracle" where
  "on_timer req i retries s = next_attempt req (i + 1) retries s"

text \<open>
  \<open>getDecimals\<close> and \<open>getDescription\<close> step by step. The test of the cache field is made
  when the call begins; the assignment \<open>this.cachedDecimals = await ...\<close> is made when the
  awaited \<open>executeWithRetry\<close> resolves, whatever the field holds by then, and the call
  returns the field it has just written. A rejection leaves the field alone.
\<close>

definition store_decimals :: "8 word progress \<times> NGNUSDOracle \<Rightarrow> 8 word progress \<times> NGNUSDOracle" where
  "store_decimals x =
     (case x of
        (Settled (Inr v), s) \<Rightarrow> (Settled (Inr v), s\<lparr>cachedDecimals := Some v\<rparr>)
      | (p, s) \<Rightarrow> (p, s))"

definition getDecimals_begin :: "NGNUSDOracle \<Rightarrow> 8 word progress \<times> NGNUSDOracle" where
  "getDecimals_begin s =
     (case cachedDecimals s of
        None \<Rightarrow> store_decimals (next_attempt Decimals 0 3 s)
      | Some v \<Rightarrow> (Settled (Inr v), s))"

definition getDecimals_reply ::
  "nat \<Rightarrow> js_error + 8 word \<Rightarrow> NGNUSDOracle \<Rightarrow> 8 word progress \<times> NGNUSDOracle" where
  "getDecimals_reply i reply s = store_decimals (on_reply Decimals i 3 reply s)"

definition getDecimals_timer :: "nat \<Rightarrow> NGNUSDOracle \<Rightarrow> 8 word progress \<times> NGNUSDOracle" where
  "getDecimals_timer i s = store_decimals (on_timer Decimals i 3 s)"

definition store_description ::
  "string progress \<times> NGNUSDOracle \<Rightarrow> string progress \<times> NGNUSDOracle" where
  "store_description x =
     (case x of
        (Settled (Inr v), s) \<Rightarrow> (Settled (Inr v), s\<lparr>cachedDescription := Some v\<rparr>)
      | (p, s) \<Rightarrow> (p, s))"

definition getDescription_begin :: "NGNUSDOracle \<Rightarrow> string progress \<times> NGNUSDOracle" where
  "getDescription_begin s =
     (case cachedDescription s of
        None \<Rightarrow> store_description (next_attempt Description 0 3 s)
      | Some v \<Rightarrow> (Settled (Inr v), s))"

definition getDescription_reply ::
  "nat \<Rightarrow> js_error + string \<Rightarrow> NGNUSDOracle \<Rightarrow> string progress \<times> NGNUSDOracle" where
  "getDescription_reply i reply s = store_description (on_reply Description i 3 reply s)"

definition getDescription_timer :: "nat \<Rightarrow> NGNUSDOracle \<Rightarrow> string progress \<times> NGNUSDOracle" where
  "getDescription_timer i s = store_description (on_timer Description i 3 s)"

text \<open>
  A get call running with nothing in between: the reply to a request is the provider's
  answer for the handle and the time at which the request was sent, that is, before the
  call was counted. At most \<open>k\<close> resumptions are made.
\<close>

fun alone ::
  "(string option \<Rightarrow> nat \<Rightarrow> js_error + 'a) \<Rightarrow> request \<Rightarrow> nat \<Rightarrow> nat \<Rightarrow>
   'a progress \<times> NGNUSDOracle \<Rightarrow> 'a progress \<times> NGNUSDOracle" where
  "alone rpc req retries 0 x = x"
| "alone rpc req retries (Suc k) (Suspended (AwaitingReply i), s) =
     alone rpc req retries k (on_reply req i retries (rpc (c_provider (contract s)) (clock s - 1)) s)"
| "alone rpc req retries (Suc k) (Suspended (AwaitingTimer i), s) =
     alone rpc req retries k (on_timer req i retries s)"
| "alone rpc req retries (Suc k) (Settled r, s) = (Settled r, s)"

text \<open>
  The get calls made on the object so far, in the order in which they began, each with the
  point it has reached.
\<close>

datatype get_call = DecimalsCall "8 word progress" | DescriptionCall "string progress"

text \<open>
  What the other methods do to the object between two of their own \<open>await\<close>s: they rotate
  the endpoint, write to the console, start a wait, send one of the other four requests
  and install the timer. (Their reads of the two static values are get calls.)
\<close>

datatype action =
  Rotate
| Log string
| LogError string js_error
| LogErrorMessage string string
| Wait nat
| ReadLatestAnswer
| ReadLatestRoundData
| ReadBlockNumber
| ReadLogs "int option" "int jsval"
| SetMonitorInterval "nat option"

fun elsewhere :: "action \<Rightarrow> NGNUSDOracle \<Rightarrow> NGNUSDOracle" where
  "elsewhere Rotate s = rotateRPC s"
| "elsewhere (Log m) s = console_log m s"
| "elsewhere (LogError m err) s = console_error m err s"
| "elsewhere (LogErrorMessage m x) s = console_error_message m x s"
| "elsewhere (Wait d) s = setTimeout d s"
| "elsewhere ReadLatestAnswer s = record_call LatestAnswer s"
| "elsewhere ReadLatestRoundData s = record_call LatestRoundData s"
| "elsewhere ReadBlockNumber s = record_call GetBlockNumber s"
| "elsewhere (ReadLogs fromBlock toBlock) s = record_call (QueryFilter fromBlock toBlock) s"
| "elsewhere (SetMonitorInterval x) s = s\<lparr>monitorInterval := x\<rparr>"

text \<open>
  What happens next on the event loop: a caller begins a get call; the reply to the request
  of call \<open>j\<close> arrives, or the wait of call \<open>j\<close> ends, and call \<open>j\<close> runs to its next
  \<open>await\<close>; or another method runs one of its steps. A reply or a timer that call \<open>j\<close>
  is not waiting for changes nothing.
\<close>

datatype event =
  CallGetDecimals
| CallGetDescription
| DecimalsReply nat "js_error + 8 word"
| DescriptionReply nat "js_error + string"
| TimerFires nat
| Elsewhere action

fun target :: "event \<Rightarrow> nat option" where
  "target (DecimalsReply j reply) = Some j"
| "target (DescriptionReply j reply) = Some j"
| "target (TimerFires j) = Some j"
| "target e = None"

fun resume :: "event \<Rightarrow> get_call \<Rightarrow> NGNUSDOracle \<Rightarrow> get_call \<times> NGNUSDOracle" where
  "resume (DecimalsReply j reply) (DecimalsCall (Suspended (AwaitingReply i))) s =
     (case getDecimals_reply i reply s of (p, s1) \<Rightarrow> (DecimalsCall p, s1))"
| "resume (TimerFires j) (DecimalsCall (Suspended (AwaitingTimer i))) s =
     (case getDecimals_timer i s of (p, s1) \<Rightarrow> (DecimalsCall p, s1))"
| "resume (DescriptionReply j reply) (DescriptionCall (Suspended (AwaitingReply i))) s =
     (case getDescription_reply i reply s of (p, s1) \<Rightarrow> (DescriptionCall p, s1))"
| "resume (TimerFires j) (DescriptionCall (Suspended (AwaitingTimer i))) s =
     (case getDescription_timer i s of (p, s1) \<Rightarrow> (DescriptionCall p, s1))"
| "resume e c s = (c, s)"

fun overlap_step :: "event \<Rightarrow> NGNUSDOracle \<times> get_call list \<Rightarrow> NGNUSDOracle \<times> get_call list" where
  "overlap_step CallGetDecimals (s, cs) =
     (case getDecimals_begin s of (p, s1) \<Rightarrow> (s1, cs @ [DecimalsCall p]))"
| "overlap_step CallGetDescription (s, cs) =
     (case getDescription_begin s of (p, s1) \<Rightarrow> (s1, cs @ [DescriptionCall p]))"
| "overlap_step (Elsewhere a) (s, cs) = (elsewhere a s, cs)"
| "overlap_step e (s, cs) =
     (case target e of
        None \<Rightarrow> (s, cs)
      | Some j \<Rightarrow>
          if j < length cs
          then (case resume e (cs ! j) s of (c, s1) \<Rightarrow> (s1, cs[j := c]))
          else (s, cs))"

fun overlap_run :: "event list \<Rightarrow> NGNUSDOracle \<times> get_call list \<Rightarrow> NGNUSDOracle \<times> get_call list" where
  "overlap_run [] x = x"
| "overlap_run (e # es) x = overlap_run es (overlap_step e x)"

text \<open>
  A call that is suspended in a fetch of the static value, the lists of calls none of which
  is, and the events of a schedule that are addressed to call \<open>j\<close>.
\<close>

fun fetching_decimals :: "get_call \<Rightarrow> bool" where
  "fetching_decimals (DecimalsCall (Suspended w)) = True"
| "fetching_decimals c = False"

fun fetching_description :: "get_call \<Rightarrow> bool" where
  "fetching_description (DescriptionCall (Suspended w)) = True"
| "fetching_description c = False"

definition decimals_idle :: "get_call list \<Rightarrow> bool" where
  "decimals_idle cs = list_all (\<lambda>c. \<not> fetching_decimals c) cs"

definition description_idle :: "get_call list \<Rightarrow> bool" where
  "description_idle cs = list_all (\<lambda>c. \<not> fetching_description c) cs"

definition inputs_to :: "nat \<Rightarrow> event list \<Rightarrow> event list" where
  "inputs_to j es = filter (\<lambda>e. target e = Some j) es"

section \<open>Example providers\<close>

text \<open>
  A provider whose every call succeeds: six decimals, the raw answer 689, the head at block
  1000 and no logged event. The others differ from it in one call.
\<close>

definition rate_limited :: js_error where
  "rate_limited =
     \<lparr>info_error_message = None, code = Some (- 32016), error_message = None,
      message = ''rate limit exceeded''\<rparr>"

definition unreachable :: js_error where
  "unreachable =
     \<lparr>info_error_message = None, code = None, error_message = None,
      message = ''connection refused''\<rparr>"

definition example_round :: round_data where
  "example_round =
     \<lparr>rd_roundId = 7, rd_answer = 689, rd_startedAt = 1700000000,
      rd_updatedAt = 1700000000, rd_answeredInRound = 7\<rparr>"

definition healthy_env :: provider_env where
  "healthy_env =
     \<lparr>rpc_decimals = (\<lambda>ep t. Inr 6),
      rpc_description = (\<lambda>ep t. Inr ''NGN / USD''),
      rpc_latestAnswer = (\<lambda>ep t. Inr 689),
      rpc_latestRoundData = (\<lambda>ep t. Inr example_round),
      rpc_getBlockNumber = (\<lambda>ep t. Inr 1000),
      rpc_queryFilter = (\<lambda>fromBlock toBlock ep t. Inr []),
      date_now = (\<lambda>t. ''2025-01-01T00:00:00.000Z''),
      date_of_seconds = (\<lambda>x. Inr ''2023-11-14T22:13:20.000Z''),
      number_toString = (\<lambda>m e. ''1e+21''),
      seconds_toString = (\<lambda>n. digits (n div 1000))\<rparr>"

text \<open>
  The object after the constructor and the first reads of \<open>decimals\<close> and of
  \<open>description\<close> from that provider.
\<close>

definition first_fetch :: NGNUSDOracle where
  "first_fetch = (record_call Decimals new_oracle)\<lparr>cachedDecimals := Some (Val 6)\<rparr>"

definition warm_oracle :: NGNUSDOracle where
  "warm_oracle =
     (record_call Description first_fetch)\<lparr>cachedDescription := Some (Val ''NGN / USD'')\<rparr>"

definition zero_answer_env :: provider_env where
  "zero_answer_env =
     healthy_env\<lparr>rpc_latestAnswer := (\<lambda>ep t. Inr 0),
                 rpc_latestRoundData := (\<lambda>ep t. Inr (example_round\<lparr>rd_answer := 0\<rparr>))\<rparr>"

definition throttled_env :: provider_env where
  "throttled_env =
     healthy_env\<lparr>rpc_decimals := (\<lambda>ep t. Inl rate_limited),
                 rpc_description := (\<lambda>ep t. Inl rate_limited),
                 rpc_latestAnswer := (\<lambda>ep t. Inl rate_limited)\<rparr>"

definition unreachable_env :: provider_env where
  "unreachable_env = healthy_env\<lparr>rpc_latestAnswer := (\<lambda>ep t. Inl unreachable)\<rparr>"

text \<open>
  A provider with which no time converts to a date: \<open>toISOString\<close> throws a \<open>RangeError\<close>,
  as it does for a time beyond the range of \<open>Date\<close>.
\<close>

definition invalid_time :: js_error where
  "invalid_time =
     \<lparr>info_error_message = None, code = None, error_message = None,
      message = ''Invalid time value''\<rparr>"

definition undated_env :: provider_env where
  "undated_env = healthy_env\<lparr>date_of_seconds := (\<lambda>x. Inl invalid_time)\<rparr>"

definition example_event :: "int \<Rightarrow> raw_event" where
  "example_event b =
     \<lparr>ev_blockNumber = b, ev_transactionHash = ''0xabc'', ev_current = 689,
      ev_roundId = 7, ev_updatedAt = 1700000000\<rparr>"

text \<open>
  Every window answers with one event at its first block; \<open>gap_env\<close> throttles the window
  that starts at block 930, \<open>broken_env\<close> refuses it.
\<close>

definition window_events :: "int option \<Rightarrow> raw_event list" where
  "window_events fromBlock = (case fromBlock of None \<Rightarrow> [] | Some f \<Rightarrow> [example_event f])"

definition history_env :: provider_env where
  "history_env =
     healthy_env\<lparr>rpc_queryFilter := (\<lambda>fromBlock toBlock ep t. Inr (window_events fromBlock))\<rparr>"

definition gap_env :: provider_env where
  "gap_env =
     healthy_env\<lparr>rpc_queryFilter :=
       (\<lambda>fromBlock toBlock ep t.
          if fromBlock = Some 930 then Inl rate_limited else Inr (window_events fromBlock))\<rparr>"

definition broken_env :: provider_env where
  "broken_env =
     healthy_env\<lparr>rpc_queryFilter :=
       (\<lambda>fromBlock toBlock ep t.
          if fromBlock = Some 930 then Inl unreachable else Inr (window_events fromBlock))\<rparr>"

text \<open>
  The waits of a trace, the bounds of the log queries in it, and the number of remote calls
  of one kind in it.
\<close>

fun timeouts :: "effect list \<Rightarrow> nat list" where
  "timeouts [] = []"
| "timeouts (Timeout d # es) = d # timeouts es"
| "timeouts (e # es) = timeouts es"

fun queries :: "effect list \<Rightarrow> (int option \<times> int jsval) list" where
  "queries [] = []"
| "queries (Call (QueryFilter fromBlock toBlock) # es) = (fromBlock, toBlock) # queries es"
| "queries (e # es) = queries es"

definition calls_of :: "request \<Rightarrow> NGNUSDOracle \<Rightarrow> nat" where
  "calls_of req s = length (filter (\<lambda>e. e = Call req) (trace s))"

section \<open>Endpoint rotation\<close>

lemmas pure_defs = console_log_def console_error_def console_error_message_def setTimeout_def
  contract_call_def provider_call_def record_call_def initializeProvider_def new_contract_def removeAllListeners_def
  contract_on_def reestablishEventListeners_def endpoint_at_def url_str_def

lemma reestablish_each_rpc [simp]:
  "rpcIndex (reestablish_each ls s) = rpcIndex s"
  "rpcEndpoints (reestablish_each ls s) = rpcEndpoints s"
  by (induction ls s rule: reestablish_each.induct) (simp_all add: contract_on_def)

lemma rotateRPC_rpcIndex: "rpcIndex (rotateRPC s) = (rpcIndex s + 1) mod length (rpcEndpoints s)"
  by (simp add: rotateRPC_def Let_def pure_defs)

lemma rotateRPC_rpcEndpoints: "rpcEndpoints (rotateRPC s) = rpcEndpoints s"
  by (simp add: rotateRPC_def Let_def pure_defs)

lemma rotate_pow_endpoints: "rpcEndpoints ((rotateRPC ^^ k) s) = rpcEndpoints s"
  by (induction k) (simp_all add: rotateRPC_rpcEndpoints)

lemma rotate_pow_index:
  "rpcIndex s < length (rpcEndpoints s) \<Longrightarrow>
   rpcIndex ((rotateRPC ^^ k) s) = (rpcIndex s + k) mod length (rpcEndpoints s)"
  by (induction k) (simp_all add: rotateRPC_rpcIndex rotate_pow_endpoints mod_Suc_eq)

text \<open>
  Claim C8. \<open>rotateRPC\<close> advances the index by one modulo the size of the pool; from a
  valid index the index stays valid under any number of rotations, and as many rotations as
  the pool has endpoints bring it back to where it started.
\<close>

theorem rotateRPC_cyclic:
  assumes "rpcIndex s < length (rpcEndpoints s)"
  shows "rpcIndex (rotateRPC s) = (rpcIndex s + 1) mod length (rpcEndpoints s)
       \<and> (\<forall>k. rpcIndex ((rotateRPC ^^ k) s) < length (rpcEndpoints s))
       \<and> rpcIndex ((rotateRPC ^^ length (rpcEndpoints s)) s) = rpcIndex s"
proof -
  have pos: "0 < length (rpcEndpoints s)"
    using assms by (cases "rpcEndpoints s") auto
  have step: "rpcIndex (rotateRPC s) = (rpcIndex s + 1) mod length (rpcEndpoints s)"
    by (rule rotateRPC_rpcIndex)
  have valid: "rpcIndex ((rotateRPC ^^ k) s) < length (rpcEndpoints s)" for k
    using pos by (simp add: rotate_pow_index [OF assms])
  have cycle: "rpcIndex ((rotateRPC ^^ length (rpcEndpoints s)) s) = rpcIndex s"
    using assms by (simp add: rotate_pow_index [OF assms])
  from step valid cycle show ?thesis by blast
qed

text \<open>The constructor's pool has four endpoints and starts at the first.\<close>

lemma new_oracle_pool: "rpcIndex new_oracle = 0" "rpcEndpoints new_oracle = RPC_ENDPOINTS"
  by (simp_all add: new_oracle_def pure_defs)

theorem rotateRPC_cyclic_witness:
  "rpcIndex new_oracle < length (rpcEndpoints new_oracle)
   \<and> length (rpcEndpoints new_oracle) = 4
   \<and> rpcIndex (rotateRPC new_oracle) = 1
   \<and> rpcIndex ((rotateRPC ^^ length (rpcEndpoints new_oracle)) new_oracle) = rpcIndex new_oracle"
proof -
  have len: "length (rpcEndpoints new_oracle) = 4"
    by (simp add: new_oracle_pool RPC_ENDPOINTS_def)
  have valid: "rpcIndex new_oracle < length (rpcEndpoints new_oracle)"
    by (simp add: new_oracle_pool RPC_ENDPOINTS_def)
  from rotateRPC_cyclic [OF valid] len valid show ?thesis
    by (simp add: new_oracle_pool RPC_ENDPOINTS_def)
qed

section \<open>The retry executor\<close>

text \<open>The branches of one turn of the loop.\<close>

lemma ewr_done: "\<not> i < retries \<Longrightarrow> executeWithRetry_from i fn retries s = (Inr Undefined, s)"
  by (subst executeWithRetry_from.simps) simp

lemma ewr_success:
  "i < retries \<Longrightarrow> fn s = (Inr v, s1) \<Longrightarrow> executeWithRetry_from i fn retries s = (Inr (Val v), s1)"
  by (subst executeWithRetry_from.simps) simp

lemma ewr_transient:
  "i < retries \<Longrightarrow> fn s = (Inl err, s1) \<Longrightarrow> isRateLimit err \<or> isFilterError err \<Longrightarrow>
   executeWithRetry_from i fn retries s =
     executeWithRetry_from (i + 1) fn retries
       (setTimeout (min (1000 * 2 ^ i) 10000) (rotateRPC (console_log (retry_notice err i retries) s1)))"
  by (subst executeWithRetry_from.simps) simp

lemma ewr_other_last:
  "i < retries \<Longrightarrow> fn s = (Inl err, s1) \<Longrightarrow> \<not> (isRateLimit err \<or> isFilterError err) \<Longrightarrow>
   i = retries - 1 \<Longrightarrow> executeWithRetry_from i fn retries s = (Inl err, s1)"
  by (subst executeWithRetry_from.simps) simp

lemma ewr_other_again:
  "i < retries \<Longrightarrow> fn s = (Inl err, s1) \<Longrightarrow> \<not> (isRateLimit err \<or> isFilterError err) \<Longrightarrow>
   i \<noteq> retries - 1 \<Longrightarrow>
   executeWithRetry_from i fn retries s = executeWithRetry_from (i + 1) fn retries s1"
  by (subst executeWithRetry_from.simps) simp

lemma ewr_all_transient_result:
  assumes "\<And>s. \<exists>err s1. fn s = (Inl err, s1) \<and> (isRateLimit err \<or> isFilterError err)"
  shows "fst (executeWithRetry_from i fn retries s) = Inr Undefined"
proof (induction "retries - i" arbitrary: i s)
  case 0
  then show ?case by (simp add: ewr_done)
next
  case (Suc n)
  then have lt: "i < retries" by simp
  obtain err s1 where f: "fn s = (Inl err, s1)" and t: "isRateLimit err \<or> isFilterError err"
    using assms by blast
  have "n = retries - (i + 1)" using Suc.hyps(2) by simp
  from Suc.hyps(1) [OF this] show ?case
    using ewr_transient [of i retries fn s err s1] lt f t by simp
qed


lemma timeouts_append: "timeouts (xs @ ys) = timeouts xs @ timeouts ys"
  by (induction xs rule: timeouts.induct) simp_all

lemma timeouts_consoles: "timeouts (map Console ms) = []"
  by (induction ms) simp_all

lemma calls_consoles: "filter (\<lambda>e. e = Call req) (map Console ms) = []"
  by (induction ms) simp_all

lemma reestablish_each_fields:
  "trace (reestablish_each ls s) = trace s"
  "clock (reestablish_each ls s) = clock s"
  "cachedDecimals (reestablish_each ls s) = cachedDecimals s"
  "cachedDescription (reestablish_each ls s) = cachedDescription s"
  "monitorInterval (reestablish_each ls s) = monitorInterval s"
  "provider (reestablish_each ls s) = provider s"
  "c_provider (contract (reestablish_each ls s)) = c_provider (contract s)"
  by (induction ls s rule: reestablish_each.induct) (simp_all add: contract_on_def)

lemma rotateRPC_trace: "\<exists>ms. trace (rotateRPC s) = trace s @ map Console ms"
proof (cases "activeListeners s = []")
  case True
  then have "trace (rotateRPC s) = trace s @ map Console
      [''Using RPC endpoint: '' @ url_str (endpoint_at (rpcEndpoints s) ((rpcIndex s + 1) mod length (rpcEndpoints s))),
       ''Rotated to RPC endpoint: '' @ url_str (endpoint_at (rpcEndpoints s) ((rpcIndex s + 1) mod length (rpcEndpoints s)))]"
    by (simp add: rotateRPC_def Let_def console_log_def initializeProvider_def new_contract_def
        removeAllListeners_def)
  then show ?thesis by blast
next
  case False
  then have "trace (rotateRPC s) = trace s @ map Console
      [''Using RPC endpoint: '' @ url_str (endpoint_at (rpcEndpoints s) ((rpcIndex s + 1) mod length (rpcEndpoints s))),
       ''Re-establishing event listeners...'',
       ''Rotated to RPC endpoint: '' @ url_str (endpoint_at (rpcEndpoints s) ((rpcIndex s + 1) mod length (rpcEndpoints s)))]"
    by (simp add: rotateRPC_def Let_def console_log_def initializeProvider_def new_contract_def
        removeAllListeners_def reestablishEventListeners_def reestablish_each_fields)
  then show ?thesis by blast
qed

lemma rotateRPC_fields:
  "clock (rotateRPC s) = clock s"
  "cachedDecimals (rotateRPC s) = cachedDecimals s"
  "cachedDescription (rotateRPC s) = cachedDescription s"
  "monitorInterval (rotateRPC s) = monitorInterval s"
  by (simp_all add: rotateRPC_def Let_def console_log_def initializeProvider_def new_contract_def
      removeAllListeners_def reestablishEventListeners_def reestablish_each_fields)

lemma rotateRPC_handle:
  "provider (rotateRPC s) = endpoint_at (rpcEndpoints s) ((rpcIndex s + 1) mod length (rpcEndpoints s))"
  "c_provider (contract (rotateRPC s)) =
     endpoint_at (rpcEndpoints s) ((rpcIndex s + 1) mod length (rpcEndpoints s))"
  by (simp_all add: rotateRPC_def Let_def console_log_def initializeProvider_def new_contract_def
      removeAllListeners_def reestablishEventListeners_def reestablish_each_fields)

lemma rotateRPC_timeouts: "timeouts (trace (rotateRPC s)) = timeouts (trace s)"
  using rotateRPC_trace [of s] by (auto simp: timeouts_append timeouts_consoles)

lemma rotateRPC_calls: "calls_of req (rotateRPC s) = calls_of req s"
  using rotateRPC_trace [of s] by (auto simp: calls_of_def calls_consoles)

text \<open>One attempt that fails with a transient error, as the loop's body leaves the object.\<close>

lemma failed_attempt_fields:
  fixes s :: NGNUSDOracle and d m req
  defines "s2 \<equiv> setTimeout d (rotateRPC (console_log m (record_call req s)))"
  shows "rpcIndex s2 = (rpcIndex s + 1) mod length (rpcEndpoints s)"
    and "rpcEndpoints s2 = rpcEndpoints s"
    and "timeouts (trace s2) = timeouts (trace s) @ [d]"
    and "calls_of req s2 = calls_of req s + 1"
    and "clock s2 = clock s + 1"
    and "cachedDecimals s2 = cachedDecimals s"
    and "cachedDescription s2 = cachedDescription s"
    and "monitorInterval s2 = monitorInterval s"
  by (simp_all add: s2_def setTimeout_def rotateRPC_rpcIndex rotateRPC_rpcEndpoints rotateRPC_fields
      rotateRPC_timeouts timeouts_append console_log_def record_call_def
      rotateRPC_calls [unfolded calls_of_def] calls_of_def)

text \<open>
  An operation that makes one remote call and meets a transient error, whatever the state
  of the object: every attempt rotates and waits, and the loop falls through.
\<close>

lemma ewr_throttled:
  assumes tr: "\<And>s. \<exists>err. fn s = (Inl err, record_call req s) \<and> (isRateLimit err \<or> isFilterError err)"
  shows "rpcIndex s < length (rpcEndpoints s) \<Longrightarrow>
     fst (executeWithRetry_from i fn retries s) = Inr Undefined
   \<and> rpcIndex (snd (executeWithRetry_from i fn retries s))
       = (rpcIndex s + (retries - i)) mod length (rpcEndpoints s)
   \<and> rpcEndpoints (snd (executeWithRetry_from i fn retries s)) = rpcEndpoints s
   \<and> timeouts (trace (snd (executeWithRetry_from i fn retries s)))
       = timeouts (trace s) @ map (\<lambda>j. min (1000 * 2 ^ j) 10000) [i..<retries]
   \<and> calls_of req (snd (executeWithRetry_from i fn retries s)) = calls_of req s + (retries - i)
   \<and> clock (snd (executeWithRetry_from i fn retries s)) = clock s + (retries - i)"
proof (induction "retries - i" arbitrary: i s)
  case 0
  then show ?case by (simp add: ewr_done)
next
  case (Suc n)
  then have lt: "i < retries" by simp
  obtain err where f: "fn s = (Inl err, record_call req s)"
    and t: "isRateLimit err \<or> isFilterError err"
    using tr by blast
  define s2 where "s2 = setTimeout (min (1000 * 2 ^ i) 10000)
      (rotateRPC (console_log (retry_notice err i retries) (record_call req s)))"
  have unfold: "executeWithRetry_from i fn retries s = executeWithRetry_from (i + 1) fn retries s2"
    using ewr_transient [of i retries fn s err "record_call req s"] lt f t by (simp add: s2_def)
  have pos: "0 < length (rpcEndpoints s)"
    using Suc.prems by (cases "rpcEndpoints s") auto
  have valid2: "rpcIndex s2 < length (rpcEndpoints s2)"
    using pos by (simp add: s2_def failed_attempt_fields)
  have n: "n = retries - (i + 1)" using Suc.hyps(2) by simp
  have upt: "[i..<retries] = i # [i + 1..<retries]"
    using lt by (simp add: upt_conv_Cons)
  have "rpcIndex s + (retries - i) = (rpcIndex s + 1) + (retries - (i + 1))"
    using lt by simp
  then have idx: "((rpcIndex s + 1) mod length (rpcEndpoints s) + (retries - (i + 1)))
        mod length (rpcEndpoints s)
      = (rpcIndex s + (retries - i)) mod length (rpcEndpoints s)"
    by (simp only: mod_add_left_eq)
  have f2: "rpcIndex s2 = (rpcIndex s + 1) mod length (rpcEndpoints s)"
    "rpcEndpoints s2 = rpcEndpoints s"
    "timeouts (trace s2) = timeouts (trace s) @ [min (1000 * 2 ^ i) 10000]"
    "calls_of req s2 = calls_of req s + 1"
    "clock s2 = clock s + 1"
    by (simp_all add: s2_def failed_attempt_fields)
  have cnt: "Suc (retries - (i + 1)) = retries - i"
    using lt by simp
  from Suc.hyps(1) [OF n valid2] show ?case
    unfolding unfold f2 upt using idx cnt lt by auto
qed

lemma throttled_contract_call:
  fixes rpc :: "string option \<Rightarrow> nat \<Rightarrow> js_error + 'a"
  assumes "\<forall>ep t. \<exists>err. rpc ep t = Inl err \<and> (isRateLimit err \<or> isFilterError err)"
  shows "\<exists>err. contract_call req rpc s = (Inl err, record_call req s)
      \<and> (isRateLimit err \<or> isFilterError err)"
proof -
  from assms obtain err where "rpc (c_provider (contract s)) (clock s) = Inl err"
    and "isRateLimit err \<or> isFilterError err" by blast
  then show ?thesis by (simp add: contract_call_def)
qed

lemma new_oracle_trace:
  "trace new_oracle =
     [Console ''Using RPC endpoint: https://mainnet.base.org'',
      Console ''Oracle initialized with address:'']"
  by (simp add: new_oracle_def console_log_def initializeProvider_def new_contract_def
      endpoint_at_def url_str_def RPC_ENDPOINTS_def)

lemma new_oracle_fields:
  "rpcIndex new_oracle = 0" "rpcEndpoints new_oracle = RPC_ENDPOINTS"
  "cachedDecimals new_oracle = None" "cachedDescription new_oracle = None"
  "activeListeners new_oracle = []" "monitorInterval new_oracle = None" "clock new_oracle = 0"
  "provider new_oracle = Some ''https://mainnet.base.org''"
  "contract new_oracle = \<lparr>c_provider = Some ''https://mainnet.base.org'', c_listeners = []\<rparr>"
  by (simp_all add: new_oracle_def console_log_def initializeProvider_def new_contract_def
      endpoint_at_def RPC_ENDPOINTS_def)

lemma rate_limited_transient: "isRateLimit rate_limited"
  by (simp add: isRateLimit_def rate_limited_def)

lemma unreachable_not_transient: "\<not> isRateLimit unreachable" "\<not> isFilterError unreachable"
  by (simp_all add: isRateLimit_def isFilterError_def unreachable_def)

lemma three_attempts: "map (\<lambda>j. min (1000 * 2 ^ j) 10000) [0..<3] = [1000, 2000, 4000::nat]"
proof -
  have "[0..<3] = [0, 1, 2::nat]" by (simp add: upt_rec)
  then show ?thesis by simp
qed

text \<open>
  Claim C1, as the code has it. An operation that makes one remote call and meets a
  transient error at every attempt, run with three attempts from an object whose index is
  valid, is invoked three times; the pool is rotated after each of the three attempts, the
  last one included, so the index advances by three around the pool; and the waits are
  1000, 2000 and 4000 ms.
\<close>

theorem transient_errors_rotate_after_every_attempt:
  assumes "\<forall>s. \<exists>err. fn s = (Inl err, record_call req s) \<and> (isRateLimit err \<or> isFilterError err)"
    and "rpcIndex s < length (rpcEndpoints s)"
  shows "calls_of req (snd (executeWithRetry fn 3 s)) = calls_of req s + 3
       \<and> rpcIndex (snd (executeWithRetry fn 3 s)) = (rpcIndex s + 3) mod length (rpcEndpoints s)
       \<and> timeouts (trace (snd (executeWithRetry fn 3 s)))
           = timeouts (trace s) @ [1000, 2000, 4000]"
proof -
  have tr: "\<exists>err. fn x = (Inl err, record_call req x) \<and> (isRateLimit err \<or> isFilterError err)"
    for x
    using assms(1) by blast
  from ewr_throttled [of fn req s 0 3, OF tr assms(2)] show ?thesis
    by (simp add: executeWithRetry_def three_attempts)
qed

theorem transient_errors_rotate_after_every_attempt_witness:
  "(\<forall>s. \<exists>err. contract_call LatestAnswer (rpc_latestAnswer throttled_env) s
        = (Inl err, record_call LatestAnswer s) \<and> (isRateLimit err \<or> isFilterError err))
   \<and> rpcIndex new_oracle < length (rpcEndpoints new_oracle)
   \<and> calls_of LatestAnswer
       (snd (executeWithRetry (contract_call LatestAnswer (rpc_latestAnswer throttled_env)) 3 new_oracle))
     = 3
   \<and> rpcIndex
       (snd (executeWithRetry (contract_call LatestAnswer (rpc_latestAnswer throttled_env)) 3 new_oracle))
     = 3
   \<and> timeouts (trace
       (snd (executeWithRetry (contract_call LatestAnswer (rpc_latestAnswer throttled_env)) 3 new_oracle)))
     = [1000, 2000, 4000]"
proof -
  have "\<forall>ep t. \<exists>err. rpc_latestAnswer throttled_env ep t = Inl err
      \<and> (isRateLimit err \<or> isFilterError err)"
    by (simp add: throttled_env_def healthy_env_def rate_limited_transient)
  then have tr: "\<forall>s. \<exists>err. contract_call LatestAnswer (rpc_latestAnswer throttled_env) s
        = (Inl err, record_call LatestAnswer s) \<and> (isRateLimit err \<or> isFilterError err)"
    using throttled_contract_call by blast
  have valid: "rpcIndex new_oracle < length (rpcEndpoints new_oracle)"
    by (simp add: new_oracle_fields RPC_ENDPOINTS_def)
  from transient_errors_rotate_after_every_attempt [OF tr valid] tr valid show ?thesis
    by (simp add: new_oracle_fields new_oracle_trace calls_of_def RPC_ENDPOINTS_def)
qed

text \<open>
  At that input the pool is rotated three times and not twice, a third wait of 4000 ms
  follows the last attempt, and the call resolves with \<open>undefined\<close> where the last error
  was to be thrown.
\<close>

theorem executeWithRetry_transient_exhaustion:
  "fst (executeWithRetry (contract_call LatestAnswer (rpc_latestAnswer throttled_env)) 3 new_oracle)
     = Inr Undefined
   \<and> rpcIndex
       (snd (executeWithRetry (contract_call LatestAnswer (rpc_latestAnswer throttled_env)) 3 new_oracle))
     = 3
   \<and> timeouts (trace
       (snd (executeWithRetry (contract_call LatestAnswer (rpc_latestAnswer throttled_env)) 3 new_oracle)))
     = [1000, 2000, 4000]"
proof -
  have "\<forall>ep t. \<exists>err. rpc_latestAnswer throttled_env ep t = Inl err
      \<and> (isRateLimit err \<or> isFilterError err)"
    by (simp add: throttled_env_def healthy_env_def rate_limited_transient)
  then have tr: "\<exists>err. contract_call LatestAnswer (rpc_latestAnswer throttled_env) s
        = (Inl err, record_call LatestAnswer s) \<and> (isRateLimit err \<or> isFilterError err)" for s
    using throttled_contract_call by blast
  have valid: "rpcIndex new_oracle < length (rpcEndpoints new_oracle)"
    by (simp add: new_oracle_fields RPC_ENDPOINTS_def)
  from ewr_throttled [of "contract_call LatestAnswer (rpc_latestAnswer throttled_env)"
      LatestAnswer new_oracle 0 3, OF tr valid]
  show ?thesis
    by (simp add: executeWithRetry_def new_oracle_fields new_oracle_trace RPC_ENDPOINTS_def
        three_attempts)
qed

section \<open>Rounded division\<close>

text \<open>
  The binary exponent found by \<open>round_ratio\<close> is not above that of the quotient, so
  the scaled quotient is at least one and a quotient of non-zero numbers is not rounded to
  zero.
\<close>

lemma ilog2_nonneg: "0 \<le> ilog2 n"
  by (induction n rule: ilog2.induct) (subst ilog2.simps, simp)

lemma ilog2_bounds: "1 \<le> n \<Longrightarrow> 2 ^ nat (ilog2 n) \<le> n \<and> n < 2 * 2 ^ nat (ilog2 n)"
proof (induction n rule: ilog2.induct)
  case (1 n)
  show ?case
  proof (cases "n < 2")
    case True
    with "1.prems" have "n = 1" by simp
    then show ?thesis by (subst (1 2) ilog2.simps) simp
  next
    case False
    then have h: "1 \<le> n div 2" by simp
    from "1.IH" [OF False h]
    have lo: "2 ^ nat (ilog2 (n div 2)) \<le> n div 2" and hi: "n div 2 < 2 * 2 ^ nat (ilog2 (n div 2))"
      by simp_all
    have eq: "ilog2 n = 1 + ilog2 (n div 2)"
      using False by (subst ilog2.simps) simp
    have nat_eq: "nat (1 + ilog2 (n div 2)) = Suc (nat (ilog2 (n div 2)))"
      using ilog2_nonneg [of "n div 2"] by simp
    show ?thesis
      unfolding eq nat_eq using lo hi by (simp, presburger)
  qed
qed


lemma exponent_below:
  fixes p q :: int
  assumes p: "0 < p" and q: "0 < q"
  defines "k \<equiv> ilog2 p - ilog2 q"
  defines "l \<equiv> (if q * 2 ^ nat k \<le> p * 2 ^ nat (- k) then k else k - 1)"
  shows "q * 2 ^ nat l \<le> p * 2 ^ nat (- l)"
proof (cases "q * 2 ^ nat k \<le> p * 2 ^ nat (- k)")
  case True
  then show ?thesis by (simp add: l_def)
next
  case False
  then have l: "l = k - 1" by (simp add: l_def)
  define a where "a = nat (ilog2 p)"
  define b where "b = nat (ilog2 q)"
  have pa: "2 ^ a \<le> p" and qb: "q < 2 * 2 ^ b"
    using ilog2_bounds [of p] ilog2_bounds [of q] p q by (simp_all add: a_def b_def)
  have k: "k = int a - int b"
    using ilog2_nonneg [of p] ilog2_nonneg [of q] by (simp add: k_def a_def b_def)
  show ?thesis
  proof (cases "1 \<le> k")
    case True
    then have ab: "a = Suc (b + nat (k - 1))" using k by simp
    have "q * 2 ^ nat (k - 1) \<le> (2 * 2 ^ b) * 2 ^ nat (k - 1)"
      using qb by (simp add: mult_right_mono)
    also have "\<dots> = 2 ^ a" by (simp add: ab power_add)
    finally have "q * 2 ^ nat (k - 1) \<le> p" using pa by simp
    then show ?thesis using True by (simp add: l)
  next
    case False
    then have ba: "Suc b = a + nat (1 - k)" using k by simp
    have "q \<le> 2 ^ Suc b" using qb by simp
    also have "\<dots> = 2 ^ a * 2 ^ nat (1 - k)" by (simp only: ba power_add)
    also have "\<dots> \<le> p * 2 ^ nat (1 - k)" using pa by (simp add: mult_right_mono)
    finally show ?thesis using False by (simp add: l)
  qed
qed

lemma scaled_quotient_ge_one:
  fixes p q l :: int
  assumes p: "0 < p" and q: "0 < q" and below: "q * 2 ^ nat l \<le> p * 2 ^ nat (- l)"
  shows "q * 2 ^ nat (l - 52) \<le> p * 2 ^ nat (- (l - 52))"
proof (cases "52 \<le> l")
  case True
  then have "nat l = nat (l - 52) + 52" by simp
  then have "(2::int) ^ nat l = 2 ^ nat (l - 52) * 2 ^ 52" by (simp only: power_add)
  then have "q * 2 ^ nat (l - 52) \<le> q * 2 ^ nat l" using q by simp
  also have "\<dots> \<le> p" using below True by simp
  finally show ?thesis using True by simp
next
  case False
  have "nat (- l) \<le> nat (- (l - 52))" by simp
  then have "(2::int) ^ nat (- l) \<le> 2 ^ nat (- (l - 52))"
    by (rule power_increasing) simp
  then have "p * 2 ^ nat (- l) \<le> p * 2 ^ nat (- (l - 52))"
    using p by (simp add: mult_left_mono)
  moreover have "q \<le> q * 2 ^ nat l" using q by simp
  ultimately show ?thesis using below False by simp
qed


lemma round_ratio_positive:
  assumes p: "0 < p" and q: "0 < q"
  shows "0 < fst (round_ratio p q)"
proof -
  define k where "k = ilog2 p - ilog2 q"
  define l where "l = (if q * 2 ^ nat k \<le> p * 2 ^ nat (- k) then k else k - 1)"
  define N where "N = p * 2 ^ nat (- (l - 52))"
  define D where "D = q * 2 ^ nat (l - 52)"
  have "q * 2 ^ nat l \<le> p * 2 ^ nat (- l)"
    unfolding l_def k_def using exponent_below [OF p q] by simp
  then have DN: "D \<le> N"
    unfolding N_def D_def by (rule scaled_quotient_ge_one [OF p q])
  have Dpos: "0 < D" using q by (simp add: D_def)
  have f: "1 \<le> N div D"
    using DN Dpos pos_imp_zdiv_pos_iff [of D N] by simp
  have "fst (round_ratio p q) =
      (if 2 * (N mod D) < D then N div D else if D < 2 * (N mod D) then N div D + 1
       else if even (N div D) then N div D else N div D + 1)"
    unfolding round_ratio_def Let_def N_def D_def l_def k_def by (simp only: fst_conv)
  then show ?thesis using f by (simp split: if_splits)
qed


lemma norm2_nonzero:
  "n \<noteq> 0 \<Longrightarrow> \<exists>m e'. norm2 n e = Fin m e' \<and> m \<noteq> 0 \<and> (0 < m) = (0 < n)"
proof (induction n e rule: norm2.induct)
  case (1 m e)
  show ?case
  proof (cases "even m")
    case True
    with "1.prems" have half: "m div 2 \<noteq> 0" by presburger
    have sign: "(0 < m div 2) = (0 < m)" using True "1.prems" by presburger
    have "norm2 m e = norm2 (m div 2) (e + 1)"
      using True "1.prems" by (subst norm2.simps) simp
    with "1.IH" [OF "1.prems" True half] sign show ?thesis by simp
  next
    case False
    then have "norm2 m e = Fin m e"
      using "1.prems" by (subst norm2.simps) simp
    with "1.prems" show ?thesis by simp
  qed
qed

lemma js_round_finite:
  assumes "p \<noteq> 0" and "q \<noteq> 0"
  shows "\<exists>m e. js_round p q = Fin m e \<and> m \<noteq> 0"
proof -
  obtain n e where r: "round_ratio \<bar>p\<bar> \<bar>q\<bar> = (n, e)" by (cases "round_ratio \<bar>p\<bar> \<bar>q\<bar>")
  have "0 < fst (round_ratio \<bar>p\<bar> \<bar>q\<bar>)"
    using assms by (intro round_ratio_positive) simp_all
  then have n: "0 < n" by (simp add: r)
  then have "(if (p < 0) = (q < 0) then n else - n) \<noteq> 0" by simp
  from norm2_nonzero [OF this, of e] show ?thesis
    by (auto simp: js_round_def r)
qed

lemma Math_pow10_finite: "\<exists>m e. Math_pow10 (Val d) = Fin m e \<and> m \<noteq> 0"
  using js_round_finite [of "10 ^ unat d" 1] by (simp add: Math_pow10_def)

lemma Number_signed_zero: "Number_signed (Val 0) = Fin 0 0"
  by (simp add: Number_signed_def Number_of_bigint_def)

lemma Number_signed_nonzero: "a \<noteq> 0 \<Longrightarrow> \<exists>m e. Number_signed (Val a) = Fin m e \<and> m \<noteq> 0"
  using js_round_finite [of "sint a" 1]
  by (simp add: Number_signed_def Number_of_bigint_def signed_eq_0_iff)

lemma js_div_nonzero:
  "m1 \<noteq> 0 \<Longrightarrow> m2 \<noteq> 0 \<Longrightarrow> \<exists>m e. js_div (Fin m1 e1) (Fin m2 e2) = Fin m e \<and> m \<noteq> 0"
  using js_round_finite [of "m1 * 2 ^ nat (e1 - e2)" "m2 * 2 ^ nat (e2 - e1)"] by simp

section \<open>Reads that succeed\<close>

lemma ewr_call_ok:
  "0 < retries \<Longrightarrow> rpc (c_provider (contract s)) (clock s) = Inr v \<Longrightarrow>
   executeWithRetry (contract_call req rpc) retries s = (Inr (Val v), record_call req s)"
  by (simp add: executeWithRetry_def ewr_success contract_call_def)

lemma ewr_provider_call_ok:
  "0 < retries \<Longrightarrow> rpc (provider s) (clock s) = Inr v \<Longrightarrow>
   executeWithRetry (provider_call req rpc) retries s = (Inr (Val v), record_call req s)"
  by (simp add: executeWithRetry_def ewr_success provider_call_def)

lemma record_call_fields:
  "clock (record_call req s) = clock s + 1"
  "trace (record_call req s) = trace s @ [Call req]"
  "contract (record_call req s) = contract s"
  "provider (record_call req s) = provider s"
  "cachedDecimals (record_call req s) = cachedDecimals s"
  "cachedDescription (record_call req s) = cachedDescription s"
  "rpcIndex (record_call req s) = rpcIndex s"
  "rpcEndpoints (record_call req s) = rpcEndpoints s"
  "monitorInterval (record_call req s) = monitorInterval s"
  "activeListeners (record_call req s) = activeListeners s"
  by (simp_all add: record_call_def)

lemma getDecimals_hit: "cachedDecimals s = Some v \<Longrightarrow> getDecimals env s = (Inr v, s)"
  by (simp add: getDecimals_def)

lemma getDescription_hit: "cachedDescription s = Some v \<Longrightarrow> getDescription env s = (Inr v, s)"
  by (simp add: getDescription_def)

lemma getDecimals_miss:
  "cachedDecimals s = None \<Longrightarrow> rpc_decimals env (c_provider (contract s)) (clock s) = Inr d \<Longrightarrow>
   getDecimals env s = (Inr (Val d), (record_call Decimals s)\<lparr>cachedDecimals := Some (Val d)\<rparr>)"
  by (simp add: getDecimals_def ewr_call_ok)

lemma getDescription_miss:
  "cachedDescription s = None \<Longrightarrow> rpc_description env (c_provider (contract s)) (clock s) = Inr d \<Longrightarrow>
   getDescription env s = (Inr (Val d), (record_call Description s)\<lparr>cachedDescription := Some (Val d)\<rparr>)"
  by (simp add: getDescription_def ewr_call_ok)

text \<open>The quote of a zero answer and of a non-zero one.\<close>

lemma quote_of_zero:
  "js_div (Number_signed (Val 0)) (Math_pow10 (Val d)) = Fin 0 0"
  "js_div (Fin 1 0) (Fin 0 0) = PosInf"
  using Math_pow10_finite [of d] by (auto simp: Number_signed_zero)

lemma quote_of_nonzero:
  assumes "a \<noteq> 0"
  shows "\<exists>m e m' e'. js_div (Number_signed (Val a)) (Math_pow10 (Val d)) = Fin m e \<and> m \<noteq> 0
      \<and> js_div (Fin 1 0) (Fin m e) = Fin m' e' \<and> m' \<noteq> 0"
proof -
  obtain m1 e1 where n: "Number_signed (Val a) = Fin m1 e1" "m1 \<noteq> 0"
    using Number_signed_nonzero [OF assms] by blast
  obtain m2 e2 where p: "Math_pow10 (Val d) = Fin m2 e2" "m2 \<noteq> 0"
    using Math_pow10_finite [of d] by blast
  obtain m e where q: "js_div (Fin m1 e1) (Fin m2 e2) = Fin m e" "m \<noteq> 0"
    using js_div_nonzero [OF n(2) p(2)] by blast
  obtain m' e' where r: "js_div (Fin 1 0) (Fin m e) = Fin m' e'" "m' \<noteq> 0"
    using js_div_nonzero [of 1 m 0 e] q(2) by auto
  show ?thesis using n p q r by auto
qed

lemma getCurrentPrice_ok:
  assumes "getDecimals env s = (Inr decimals, s1)"
    and "getDescription env s1 = (Inr description, s2)"
    and "rpc_latestAnswer env (c_provider (contract s2)) (clock s2) = Inr a"
  shows "getCurrentPrice env s =
    (Inr \<lparr>p_ngnToUsd = js_div (Number_signed (Val a)) (Math_pow10 decimals),
          p_usdToNgn = js_div (Fin 1 0) (js_div (Number_signed (Val a)) (Math_pow10 decimals)),
          p_decimals = decimals, p_description = description,
          p_formattedPrice = formatted_price env
             (js_div (Fin 1 0) (js_div (Number_signed (Val a)) (Math_pow10 decimals))),
          p_reversePrice = reverse_price env (js_div (Number_signed (Val a)) (Math_pow10 decimals)),
          p_timestamp = date_now env (clock s2 + 1)\<rparr>,
     record_call LatestAnswer s2)"
  using assms
  by (simp add: getCurrentPrice_def ewr_call_ok Let_def record_call_fields)

lemma getLatestRoundData_ok:
  assumes "getDecimals env s = (Inr decimals, s1)"
    and "rpc_latestRoundData env (c_provider (contract s1)) (clock s1) = Inr rd"
    and "date_of_seconds env (Number_unsigned (rd_updatedAt rd)) = Inr stamp"
  shows "getLatestRoundData env s =
    (Inr \<lparr>r_roundId = digits (unat (rd_roundId rd)),
          r_answer = Number_signed (Val (rd_answer rd)),
          r_ngnToUsd = js_div (Number_signed (Val (rd_answer rd))) (Math_pow10 decimals),
          r_usdToNgn = js_div (Fin 1 0) (js_div (Number_signed (Val (rd_answer rd))) (Math_pow10 decimals)),
          r_formattedPrice = formatted_price env
             (js_div (Fin 1 0) (js_div (Number_signed (Val (rd_answer rd))) (Math_pow10 decimals))),
          r_reversePrice = reverse_price env
             (js_div (Number_signed (Val (rd_answer rd))) (Math_pow10 decimals)),
          r_startedAt = Number_unsigned (rd_startedAt rd),
          r_updatedAt = Number_unsigned (rd_updatedAt rd),
          r_answeredInRound = digits (unat (rd_answeredInRound rd)),
          r_updatedAtFormatted = stamp\<rparr>,
     record_call LatestRoundData s1)"
  using assms
  by (simp add: getLatestRoundData_def ewr_call_ok Let_def)

lemmas number_eval = js_round_def round_ratio_def Number_of_bigint_def Number_signed_def
  Number_unsigned_def Math_pow10_def ilog2.simps norm2.simps Let_def

lemmas toFixed_eval = toFixed_def round_half_up_def place_point_def digits.simps pad_zeros.simps
  formatted_price_def reverse_price_def

lemma example_quote:
  "js_div (Number_signed (Val 689)) (Math_pow10 (Val 6)) = Fin 6354903333392941 (- 63)"
  "js_div (Fin 1 0) (Fin 6354903333392941 (- 63)) = Fin 1595807877759071 (- 40)"
  by (simp_all add: number_eval)

lemma example_strings:
  "formatted_price env (Fin 1595807877759071 (- 40)) = ''1 USD = 1451.38 NGN''"
  "reverse_price env (Fin 6354903333392941 (- 63)) = ''1 NGN = 0.000689 USD''"
  "formatted_price env PosInf = ''1 USD = Infinity NGN''"
  "reverse_price env (Fin 0 0) = ''1 NGN = 0.000000 USD''"
  by (simp_all add: toFixed_eval)

section \<open>Quotes\<close>

text \<open>The first reads from a provider that serves the static values as the example one does.\<close>

lemma first_fetch_fields:
  "cachedDecimals first_fetch = Some (Val 6)" "cachedDescription first_fetch = None"
  "contract first_fetch = contract new_oracle" "clock first_fetch = 1"
  by (simp_all add: first_fetch_def record_call_fields new_oracle_fields)

lemma warm_oracle_fields:
  "cachedDecimals warm_oracle = Some (Val 6)" "cachedDescription warm_oracle = Some (Val ''NGN / USD'')"
  "contract warm_oracle = contract new_oracle" "clock warm_oracle = 2"
  "provider warm_oracle = provider new_oracle"
  "rpcIndex warm_oracle = 0" "rpcEndpoints warm_oracle = RPC_ENDPOINTS"
  "monitorInterval warm_oracle = None"
  by (simp_all add: warm_oracle_def first_fetch_def record_call_fields new_oracle_fields)

lemma cold_start:
  assumes "rpc_decimals env = rpc_decimals healthy_env"
    and "rpc_description env = rpc_description healthy_env"
  shows "getDecimals env new_oracle = (Inr (Val 6), first_fetch)"
    and "getDescription env first_fetch = (Inr (Val ''NGN / USD''), warm_oracle)"
proof -
  show "getDecimals env new_oracle = (Inr (Val 6), first_fetch)"
    unfolding first_fetch_def
    by (rule getDecimals_miss) (simp_all add: assms new_oracle_fields healthy_env_def)
  show "getDescription env first_fetch = (Inr (Val ''NGN / USD''), warm_oracle)"
    unfolding warm_oracle_def
    by (rule getDescription_miss) (simp_all add: assms first_fetch_fields healthy_env_def)
qed

text \<open>
  Claim C5, as the code has it. With six decimals and the raw answer 689 the inverse rate is
  the binary64 number nearest to 0.000689 and the direct rate is its rounded reciprocal,
  about 1451.38 (not 1450.65, whose inverse would be 0.000689346): the strings are
  ``1 USD = 1451.38 NGN'' and ``1 NGN = 0.000689 USD''.
\<close>

theorem getCurrentPrice_example:
  assumes "getDecimals env s = (Inr (Val 6), s1)"
    and "getDescription env s1 = (Inr description, s2)"
    and "rpc_latestAnswer env (c_provider (contract s2)) (clock s2) = Inr 689"
  shows "fst (getCurrentPrice env s) =
    Inr \<lparr>p_ngnToUsd = Fin 6354903333392941 (- 63),
         p_usdToNgn = Fin 1595807877759071 (- 40),
         p_decimals = Val 6, p_description = description,
         p_formattedPrice = ''1 USD = 1451.38 NGN'',
         p_reversePrice = ''1 NGN = 0.000689 USD'',
         p_timestamp = date_now env (clock s2 + 1)\<rparr>"
  by (simp add: getCurrentPrice_ok [OF assms] example_quote example_strings
      del: js_div.simps)

theorem getCurrentPrice_example_witness:
  "getDecimals healthy_env new_oracle = (Inr (Val 6), first_fetch)
   \<and> getDescription healthy_env first_fetch = (Inr (Val ''NGN / USD''), warm_oracle)
   \<and> rpc_latestAnswer healthy_env (c_provider (contract warm_oracle)) (clock warm_oracle) = Inr 689
   \<and> fst (getCurrentPrice healthy_env new_oracle) =
      Inr \<lparr>p_ngnToUsd = Fin 6354903333392941 (- 63),
           p_usdToNgn = Fin 1595807877759071 (- 40),
           p_decimals = Val 6, p_description = Val ''NGN / USD'',
           p_formattedPrice = ''1 USD = 1451.38 NGN'',
           p_reversePrice = ''1 NGN = 0.000689 USD'',
           p_timestamp = ''2025-01-01T00:00:00.000Z''\<rparr>"
proof -
  have d: "getDecimals healthy_env new_oracle = (Inr (Val 6), first_fetch)"
    and n: "getDescription healthy_env first_fetch = (Inr (Val ''NGN / USD''), warm_oracle)"
    by (simp_all add: cold_start)
  have a: "rpc_latestAnswer healthy_env (c_provider (contract warm_oracle)) (clock warm_oracle) = Inr 689"
    by (simp add: healthy_env_def)
  from getCurrentPrice_example [OF d n a] d n a show ?thesis
    by (simp add: healthy_env_def)
qed

theorem formatted_price_counterexample:
  "map_sum id p_formattedPrice (fst (getCurrentPrice healthy_env new_oracle))
     \<noteq> Inr ''1 USD = 1450.65 NGN''"
proof -
  have "rpc_latestAnswer healthy_env (c_provider (contract warm_oracle)) (clock warm_oracle) = Inr 689"
    by (simp add: healthy_env_def)
  moreover have "getDecimals healthy_env new_oracle = (Inr (Val 6), first_fetch)"
    and "getDescription healthy_env first_fetch = (Inr (Val ''NGN / USD''), warm_oracle)"
    by (simp_all add: cold_start)
  ultimately show ?thesis
    by (simp add: getCurrentPrice_ok example_quote example_strings del: js_div.simps)
qed


text \<open>
  An error with which the retry loop rejects is one that its operation threw, so the errors
  of the two quote methods are those of the remote calls (and, for the round data, of the
  date conversion and of reading an \<open>undefined\<close> record): no error comes from the
  arithmetic.
\<close>

lemma ewr_error_origin:
  "fst (executeWithRetry_from i fn retries s) = Inl err \<Longrightarrow> \<exists>s'. fst (fn s') = Inl err"
proof (induction "retries - i" arbitrary: i s)
  case 0
  then show ?case by (simp add: ewr_done)
next
  case (Suc n)
  then have lt: "i < retries" by simp
  have n: "n = retries - (i + 1)" using Suc.hyps(2) by simp
  obtain r s1 where f: "fn s = (r, s1)" by (cases "fn s")
  show ?case
  proof (cases r)
    case (Inr v)
    then show ?thesis using ewr_success [of i retries fn s v s1] lt f Suc.prems by simp
  next
    case (Inl e)
    show ?thesis
    proof (cases "isRateLimit e \<or> isFilterError e")
      case True
      then show ?thesis
        using ewr_transient [of i retries fn s e s1] lt f Inl Suc.prems Suc.hyps(1) [OF n]
        by simp
    next
      case False
      show ?thesis
      proof (cases "i = retries - 1")
        case True
        then have "executeWithRetry_from i fn retries s = (Inl e, s1)"
          using ewr_other_last [of i retries fn s e s1] lt f Inl False by simp
        then have "e = err" using Suc.prems by simp
        then show ?thesis using f Inl by (intro exI [of _ s]) simp
      next
        case nl: False
        then show ?thesis
          using ewr_other_again [of i retries fn s e s1] lt f Inl False Suc.prems Suc.hyps(1) [OF n]
          by simp
      qed
    qed
  qed
qed

lemma ewr_call_error_origin:
  assumes "executeWithRetry (contract_call req rpc) retries s = (Inl err, s1)"
  shows "\<exists>ep t. rpc ep t = Inl err"
proof -
  from assms have "fst (executeWithRetry_from 0 (contract_call req rpc) retries s) = Inl err"
    by (simp add: executeWithRetry_def)
  from ewr_error_origin [OF this] show ?thesis
    by (auto simp: contract_call_def)
qed

lemma getDecimals_error_origin:
  assumes "getDecimals env s = (Inl err, s1)"
  shows "\<exists>ep t. rpc_decimals env ep t = Inl err"
proof (cases "cachedDecimals s")
  case None
  obtain r s2 where g: "executeWithRetry (contract_call Decimals (rpc_decimals env)) 3 s = (r, s2)"
    by (cases "executeWithRetry (contract_call Decimals (rpc_decimals env)) 3 s")
  with assms None have "r = Inl err" by (simp add: getDecimals_def split: sum.splits)
  with g ewr_call_error_origin show ?thesis by blast
next
  case (Some v)
  with assms show ?thesis by (simp add: getDecimals_hit)
qed

lemma getDescription_error_origin:
  assumes "getDescription env s = (Inl err, s1)"
  shows "\<exists>ep t. rpc_description env ep t = Inl err"
proof (cases "cachedDescription s")
  case None
  obtain r s2 where g: "executeWithRetry (contract_call Description (rpc_description env)) 3 s = (r, s2)"
    by (cases "executeWithRetry (contract_call Description (rpc_description env)) 3 s")
  with assms None have "r = Inl err" by (simp add: getDescription_def split: sum.splits)
  with g ewr_call_error_origin show ?thesis by blast
next
  case (Some v)
  with assms show ?thesis by (simp add: getDescription_hit)
qed

lemma getCurrentPrice_errors_are_remote:
  assumes "fst (getCurrentPrice env s) = Inl err"
  shows "(\<exists>ep t. rpc_decimals env ep t = Inl err) \<or> (\<exists>ep t. rpc_description env ep t = Inl err)
       \<or> (\<exists>ep t. rpc_latestAnswer env ep t = Inl err)"
proof -
  obtain r1 s1 where g1: "getDecimals env s = (r1, s1)"
    by (cases "getDecimals env s")
  obtain r2 s2 where g2: "getDescription env s1 = (r2, s2)"
    by (cases "getDescription env s1")
  obtain r3 s3 where g3:
    "executeWithRetry (contract_call LatestAnswer (rpc_latestAnswer env)) 3 s2 = (r3, s3)"
    by (cases "executeWithRetry (contract_call LatestAnswer (rpc_latestAnswer env)) 3 s2")
  from assms have "r1 = Inl err \<or> r2 = Inl err \<or> r3 = Inl err"
    by (simp add: getCurrentPrice_def g1 g2 g3 Let_def split: sum.splits)
  then show ?thesis
    using getDecimals_error_origin [of env s err s1] getDescription_error_origin [of env s1 err s2]
      ewr_call_error_origin [of LatestAnswer "rpc_latestAnswer env" 3 s2 err s3] g1 g2 g3
    by blast
qed

lemma getLatestRoundData_errors:
  assumes "fst (getLatestRoundData env s) = Inl err"
  shows "(\<exists>ep t. rpc_decimals env ep t = Inl err) \<or> (\<exists>ep t. rpc_latestRoundData env ep t = Inl err)
       \<or> (\<exists>x. date_of_seconds env x = Inl err) \<or> err = TypeError ''answer''"
proof -
  obtain r1 s1 where g1: "getDecimals env s = (r1, s1)"
    by (cases "getDecimals env s")
  obtain r2 s2 where g2:
    "executeWithRetry (contract_call LatestRoundData (rpc_latestRoundData env)) 3 s1 = (r2, s2)"
    by (cases "executeWithRetry (contract_call LatestRoundData (rpc_latestRoundData env)) 3 s1")
  from assms have "r1 = Inl err \<or> r2 = Inl err \<or> (\<exists>x. date_of_seconds env x = Inl err)
      \<or> err = TypeError ''answer''"
    by (auto simp: getLatestRoundData_def g1 g2 Let_def split: sum.splits jsval.splits)
  then show ?thesis
    using getDecimals_error_origin [of env s err s1]
      ewr_call_error_origin [of LatestRoundData "rpc_latestRoundData env" 3 s1 err s2] g1 g2
    by blast
qed

section \<open>Subscriptions\<close>

text \<open>
  Claim C2, as the code has it. \<open>setupEventListeners\<close> installs nothing: it writes one
  line to the console and leaves the registry of listeners and the contract handle as they
  were.
\<close>

theorem setupEventListeners_installs_nothing:
  "activeListeners (setupEventListeners s) = activeListeners s
   \<and> contract (setupEventListeners s) = contract s
   \<and> trace (setupEventListeners s)
       = trace s @ [Console ''Event listeners disabled due to RPC filter limitations'']"
  by (simp add: setupEventListeners_def console_log_def)

theorem setupEventListeners_counterexample:
  "map_of (activeListeners (setupEventListeners new_oracle)) ''AnswerUpdated'' = None
   \<and> c_listeners (contract (setupEventListeners new_oracle)) = []"
  by (simp add: setupEventListeners_def console_log_def new_oracle_fields)

section \<open>What every method keeps\<close>

text \<open>The retry loop keeps what its operation, rotation, console output and waiting keep.\<close>

lemma ewr_keeps:
  assumes fn: "\<And>s. P s \<Longrightarrow> P (snd (fn s))"
    and rot: "\<And>s. P s \<Longrightarrow> P (rotateRPC s)"
    and log: "\<And>m s. P s \<Longrightarrow> P (console_log m s)"
    and wait: "\<And>d s. P s \<Longrightarrow> P (setTimeout d s)"
  shows "P s \<Longrightarrow> P (snd (executeWithRetry_from i fn retries s))"
proof (induction "retries - i" arbitrary: i s)
  case 0
  then show ?case by (simp add: ewr_done)
next
  case (Suc n)
  then have lt: "i < retries" by simp
  have n: "n = retries - (i + 1)" using Suc.hyps(2) by simp
  obtain r s1 where f: "fn s = (r, s1)" by (cases "fn s")
  have s1: "P s1" using fn [OF Suc.prems] by (simp add: f)
  show ?case
  proof (cases r)
    case (Inr v)
    then show ?thesis using ewr_success [of i retries fn s v s1] lt f s1 by simp
  next
    case (Inl err)
    show ?thesis
    proof (cases "isRateLimit err \<or> isFilterError err")
      case True
      have "P (setTimeout (min (1000 * 2 ^ i) 10000)
                (rotateRPC (console_log (retry_notice err i retries) s1)))"
        by (intro wait rot log s1)
      from Suc.hyps(1) [OF n this] show ?thesis
        using ewr_transient [of i retries fn s err s1] lt f Inl True by simp
    next
      case False
      show ?thesis
      proof (cases "i = retries - 1")
        case True
        then show ?thesis
          using ewr_other_last [of i retries fn s err s1] lt f Inl False s1 by simp
      next
        case nl: False
        from Suc.hyps(1) [OF n s1] show ?thesis
          using ewr_other_again [of i retries fn s err s1] lt f Inl False nl by simp
      qed
    qed
  qed
qed

lemma stableD:
  assumes "stable env P" and "P s"
  shows "P (rotateRPC s)" "P (console_log m s)" "P (console_error m e s)"
    "P (console_error_message m x s)" "P (setTimeout d s)"
    "P (snd (getDecimals env s))" "P (snd (getDescription env s))"
    "P (record_call LatestAnswer s)" "P (record_call LatestRoundData s)"
    "P (record_call GetBlockNumber s)" "P (record_call (QueryFilter f t) s)"
    "P (s\<lparr>monitorInterval := y\<rparr>)"
proof -
  note all = assms(1) [unfolded stable_def, rule_format, OF assms(2)]
  from all show "P (rotateRPC s)" by (elim conjE)
  from all show "P (console_log m s)" by (elim conjE) (erule spec)
  from all show "P (console_error m e s)" by (elim conjE) blast
  from all show "P (console_error_message m x s)" by (elim conjE) blast
  from all show "P (setTimeout d s)" by (elim conjE) (erule spec)
  from all show "P (snd (getDecimals env s))" by (elim conjE)
  from all show "P (snd (getDescription env s))" by (elim conjE)
  from all show "P (record_call LatestAnswer s)" by (elim conjE)
  from all show "P (record_call LatestRoundData s)" by (elim conjE)
  from all show "P (record_call GetBlockNumber s)" by (elim conjE)
  from all show "P (record_call (QueryFilter f t) s)" by (elim conjE) blast
  from all show "P (s\<lparr>monitorInterval := y\<rparr>)" by (elim conjE) (erule spec)
qed

lemma ewr_stable:
  assumes st: "stable env P" and fn: "\<And>s. P s \<Longrightarrow> P (snd (fn s))"
  shows "P s \<Longrightarrow> P (snd (executeWithRetry fn retries s))"
  unfolding executeWithRetry_def
proof (rule ewr_keeps [where P = P])
  show "P s \<Longrightarrow> P (snd (fn s))" for s by (rule fn)
  show "P s \<Longrightarrow> P (rotateRPC s)" for s by (rule stableD(1) [OF st])
  show "P s \<Longrightarrow> P (console_log m s)" for m s by (rule stableD(2) [OF st])
  show "P s \<Longrightarrow> P (setTimeout d s)" for d s by (rule stableD(5) [OF st])
qed

text \<open>Every method, run with no other call in between, keeps a stable property.\<close>

lemma ewr_call_stable:
  assumes st: "stable env P" and rc: "\<And>s. P s \<Longrightarrow> P (record_call req s)" and P: "P s"
  shows "P (snd (executeWithRetry (contract_call req rpc) retries s))"
    and "P (snd (executeWithRetry (provider_call req rpc) retries s))"
proof -
  show "P (snd (executeWithRetry (contract_call req rpc) retries s))"
    by (rule ewr_stable [OF st _ P]) (simp add: contract_call_def rc)
  show "P (snd (executeWithRetry (provider_call req rpc) retries s))"
    by (rule ewr_stable [OF st _ P]) (simp add: provider_call_def rc)
qed

lemma getCurrentPrice_stable:
  assumes st: "stable env P" and P: "P s"
  shows "P (snd (getCurrentPrice env s))"
proof -
  obtain r1 s1 where g1: "getDecimals env s = (r1, s1)"
    by (cases "getDecimals env s")
  have p1: "P s1" using stableD(6) [OF st P] by (simp add: g1)
  obtain r2 s2 where g2: "getDescription env s1 = (r2, s2)"
    by (cases "getDescription env s1")
  have p2: "P s2" using stableD(7) [OF st p1] by (simp add: g2)
  obtain r3 s3 where g3:
    "executeWithRetry (contract_call LatestAnswer (rpc_latestAnswer env)) 3 s2 = (r3, s3)"
    by (cases "executeWithRetry (contract_call LatestAnswer (rpc_latestAnswer env)) 3 s2")
  have p3: "P s3"
    using ewr_call_stable(1) [OF st stableD(8) [OF st] p2, of "rpc_latestAnswer env" 3]
    by (simp add: g3)
  show ?thesis
    using stableD(3) [OF st p1] stableD(3) [OF st p2] stableD(3) [OF st p3] p3
    by (simp add: getCurrentPrice_def g1 g2 g3 Let_def split: sum.splits)
qed

lemma getLatestRoundData_stable:
  assumes st: "stable env P" and P: "P s"
  shows "P (snd (getLatestRoundData env s))"
proof -
  obtain r1 s1 where g1: "getDecimals env s = (r1, s1)"
    by (cases "getDecimals env s")
  have p1: "P s1" using stableD(6) [OF st P] by (simp add: g1)
  obtain r2 s2 where g2:
    "executeWithRetry (contract_call LatestRoundData (rpc_latestRoundData env)) 3 s1 = (r2, s2)"
    by (cases "executeWithRetry (contract_call LatestRoundData (rpc_latestRoundData env)) 3 s1")
  have p2: "P s2"
    using ewr_call_stable(1) [OF st stableD(9) [OF st] p1, of "rpc_latestRoundData env" 3]
    by (simp add: g2)
  show ?thesis
    using stableD(3) [OF st p1] stableD(3) [OF st p2] p2
    by (simp add: getLatestRoundData_def g1 g2 Let_def split: sum.splits jsval.splits)
qed

lemma processEvents_stable:
  assumes st: "stable env P" and P: "P s"
  shows "P (snd (processEvents env events s))"
proof -
  obtain r1 s1 where g1: "getDecimals env s = (r1, s1)"
    by (cases "getDecimals env s")
  have p1: "P s1" using stableD(6) [OF st P] by (simp add: g1)
  then show ?thesis
    by (simp add: processEvents_def g1 split: sum.splits jsval.splits)
qed

lemma query_window_stable:
  assumes st: "stable env P" and P: "P s"
  shows "P (snd (query_window env fromBlock toBlock s))"
  unfolding query_window_def
  by (rule ewr_call_stable(1) [OF st stableD(11) [OF st] P])

lemma query_single_stable:
  assumes st: "stable env P" and P: "P s"
  shows "P (snd (query_single env fromBlock currentBlock s))"
proof -
  obtain r1 s1 where g1: "query_window env fromBlock currentBlock s = (r1, s1)"
    by (cases "query_window env fromBlock currentBlock s")
  have p1: "P s1" using query_window_stable [OF st P, of fromBlock currentBlock] by (simp add: g1)
  show ?thesis
    using stableD(3) [OF st p1] processEvents_stable [OF st p1]
    by (simp add: query_single_def g1 split: sum.splits jsval.splits)
qed

lemma query_batch_stable:
  assumes st: "stable env P" and P: "P s"
  shows "P (snd (query_batch env b s))"
proof -
  obtain r1 s1 where g1: "query_window env (Some (b_from b)) (Val (b_to b)) s = (r1, s1)"
    by (cases "query_window env (Some (b_from b)) (Val (b_to b)) s")
  have p1: "P s1"
    using query_window_stable [OF st P, of "Some (b_from b)" "Val (b_to b)"] by (simp add: g1)
  show ?thesis
    using stableD(4) [OF st p1] p1
    by (simp add: query_batch_def g1 split: sum.splits)
qed

lemma query_batches_stable:
  assumes st: "stable env P"
  shows "P s \<Longrightarrow> P (snd (query_batches env bs s))"
proof (induction bs arbitrary: s)
  case Nil
  then show ?case by simp
next
  case (Cons b bs)
  obtain r s1 where g: "query_batch env b s = (r, s1)"
    by (cases "query_batch env b s")
  have "P s1" using query_batch_stable [OF st Cons.prems, of b] by (simp add: g)
  from Cons.IH [OF this] show ?case
    by (cases "query_batches env bs s1") (simp add: g)
qed

lemma query_batched_stable:
  assumes st: "stable env P" and P: "P s"
  shows "P (snd (query_batched env batches s))"
proof -
  define s0 where "s0 = console_log (''Querying in '' @ digits (length batches) @ '' batches...'') s"
  have p0: "P s0" unfolding s0_def by (rule stableD(2) [OF st P])
  obtain rs s1 where g: "query_batches env batches s0 = (rs, s1)"
    by (cases "query_batches env batches s0")
  have p1: "P s1" using query_batches_stable [OF st p0, of batches] by (simp add: g)
  show ?thesis
    unfolding query_batched_def s0_def [symmetric] g
    using processEvents_stable [OF st stableD(2) [OF st p1]] by simp
qed

lemma queryHistoricalEvents_stable:
  assumes st: "stable env P" and P: "P s"
    and q: "queryHistoricalEvents env blockRange batchSize s = Some r"
  shows "P (snd r)"
proof -
  define s0 where "s0 = console_log
      (''Querying historical events (last '' @ int_str blockRange @ '' blocks)...'') s"
  have p0: "P s0" unfolding s0_def by (rule stableD(2) [OF st P])
  obtain r1 s1 where g:
    "executeWithRetry (provider_call GetBlockNumber (rpc_getBlockNumber env)) 3 s0 = (r1, s1)"
    by (cases "executeWithRetry (provider_call GetBlockNumber (rpc_getBlockNumber env)) 3 s0")
  have p1: "P s1"
    using ewr_call_stable(2) [OF st stableD(10) [OF st] p0, of "rpc_getBlockNumber env" 3]
    by (simp add: g)
  from q have "(case r1 of
        Inl err \<Rightarrow> Some (Inr [], console_error ''Error querying historical events:'' err s1)
      | Inr currentBlock \<Rightarrow>
          if blockRange \<le> batchSize
          then Some (query_single env (from_block currentBlock blockRange) currentBlock s1)
          else (case make_batches (from_block currentBlock blockRange) currentBlock batchSize of
                  None \<Rightarrow> None
                | Some batches \<Rightarrow> Some (query_batched env batches s1))) = Some r"
    unfolding queryHistoricalEvents_def s0_def [symmetric] g by simp
  then show ?thesis
    using stableD(3) [OF st p1] query_single_stable [OF st p1] query_batched_stable [OF st p1]
    by (auto split: sum.splits option.splits if_splits)
qed

lemma displayCurrentPrice_stable:
  assumes st: "stable env P" and P: "P s"
  shows "P (snd (displayCurrentPrice env s))"
proof -
  obtain r1 s1 where g1: "getCurrentPrice env s = (r1, s1)"
    by (cases "getCurrentPrice env s")
  have p1: "P s1" using getCurrentPrice_stable [OF st P] by (simp add: g1)
  show ?thesis
    using p1 stableD(2) [OF st stableD(2) [OF st stableD(2) [OF st stableD(2) [OF st p1]]]]
    by (simp add: displayCurrentPrice_def g1 split: sum.splits)
qed

lemma monitorPrice_stable:
  assumes st: "stable env P" and P: "P s"
  shows "P (snd (monitorPrice env intervalMs s))"
proof -
  define s0 where "s0 = console_log
      (''Starting price monitoring (interval: '' @ seconds_toString env intervalMs @ ''s)...'') s"
  have p0: "P s0" unfolding s0_def by (rule stableD(2) [OF st P])
  obtain r1 s1 where g1: "displayCurrentPrice env s0 = (r1, s1)"
    by (cases "displayCurrentPrice env s0")
  have p1: "P s1" using displayCurrentPrice_stable [OF st p0] by (simp add: g1)
  show ?thesis
    unfolding monitorPrice_def s0_def [symmetric] g1
    using p1 stableD(12) [OF st p1] by (simp split: sum.splits)
qed

lemma monitor_tick_stable:
  assumes st: "stable env P" and P: "P s"
  shows "P (monitor_tick env s)"
proof -
  obtain r1 s1 where g1: "displayCurrentPrice env s = (r1, s1)"
    by (cases "displayCurrentPrice env s")
  have p1: "P s1" using displayCurrentPrice_stable [OF st P] by (simp add: g1)
  show ?thesis
    using p1 stableD(4) [OF st p1]
    by (simp add: monitor_tick_def g1 split: sum.splits)
qed

section \<open>The static value cache\<close>

text \<open>
  A cached value and the number of its fetches are stable: the effects of the methods keep
  them.
\<close>

lemma calls_of_effects:
  "calls_of req (console_log m s) = calls_of req s"
  "calls_of req (console_error m e s) = calls_of req s"
  "calls_of req (console_error_message m x s) = calls_of req s"
  "calls_of req (setTimeout d s) = calls_of req s"
  "calls_of req (s\<lparr>monitorInterval := y\<rparr>) = calls_of req s"
  "calls_of req (s\<lparr>cachedDecimals := cd\<rparr>) = calls_of req s"
  "calls_of req (s\<lparr>cachedDescription := cs\<rparr>) = calls_of req s"
  "calls_of req (record_call req' s) = calls_of req s + (if req' = req then 1 else 0)"
  by (simp_all add: calls_of_def console_log_def console_error_def console_error_message_def
      setTimeout_def record_call_def)

lemma cache_effects:
  "cachedDecimals (console_log m s) = cachedDecimals s"
  "cachedDecimals (console_error m e s) = cachedDecimals s"
  "cachedDecimals (console_error_message m x s) = cachedDecimals s"
  "cachedDecimals (setTimeout d s) = cachedDecimals s"
  "cachedDescription (console_log m s) = cachedDescription s"
  "cachedDescription (console_error m e s) = cachedDescription s"
  "cachedDescription (console_error_message m x s) = cachedDescription s"
  "cachedDescription (setTimeout d s) = cachedDescription s"
  by (simp_all add: console_log_def console_error_def console_error_message_def setTimeout_def)

lemmas kept_simps = calls_of_effects cache_effects rotateRPC_fields rotateRPC_calls record_call_fields

lemma decimals_kept_by_description:
  assumes "cachedDecimals s = Some v \<and> calls_of Decimals s = n"
  shows "cachedDecimals (snd (getDescription env s)) = Some v
       \<and> calls_of Decimals (snd (getDescription env s)) = n"
proof (cases "cachedDescription s")
  case (Some w)
  then show ?thesis using assms by (simp add: getDescription_hit)
next
  case None
  obtain r s1 where g: "executeWithRetry (contract_call Description (rpc_description env)) 3 s = (r, s1)"
    by (cases "executeWithRetry (contract_call Description (rpc_description env)) 3 s")
  have "cachedDecimals (snd (executeWithRetry_from 0 (contract_call Description (rpc_description env)) 3 s)) = Some v
      \<and> calls_of Decimals (snd (executeWithRetry_from 0 (contract_call Description (rpc_description env)) 3 s)) = n"
    by (rule ewr_keeps [where P = "\<lambda>s. cachedDecimals s = Some v \<and> calls_of Decimals s = n"])
       (simp_all add: assms kept_simps contract_call_def)
  then have "cachedDecimals s1 = Some v \<and> calls_of Decimals s1 = n"
    by (simp add: g [unfolded executeWithRetry_def])
  then show ?thesis
    by (simp add: getDescription_def None g kept_simps split: sum.splits)
qed

lemma description_kept_by_decimals:
  assumes "cachedDescription s = Some v \<and> calls_of Description s = n"
  shows "cachedDescription (snd (getDecimals env s)) = Some v
       \<and> calls_of Description (snd (getDecimals env s)) = n"
proof (cases "cachedDecimals s")
  case (Some w)
  then show ?thesis using assms by (simp add: getDecimals_hit)
next
  case None
  obtain r s1 where g: "executeWithRetry (contract_call Decimals (rpc_decimals env)) 3 s = (r, s1)"
    by (cases "executeWithRetry (contract_call Decimals (rpc_decimals env)) 3 s")
  have "cachedDescription (snd (executeWithRetry_from 0 (contract_call Decimals (rpc_decimals env)) 3 s)) = Some v
      \<and> calls_of Description (snd (executeWithRetry_from 0 (contract_call Decimals (rpc_decimals env)) 3 s)) = n"
    by (rule ewr_keeps [where P = "\<lambda>s. cachedDescription s = Some v \<and> calls_of Description s = n"])
       (simp_all add: assms kept_simps contract_call_def)
  then have "cachedDescription s1 = Some v \<and> calls_of Description s1 = n"
    by (simp add: g [unfolded executeWithRetry_def])
  then show ?thesis
    by (simp add: getDecimals_def None g kept_simps split: sum.splits)
qed

lemma decimals_kept_stable:
  "stable env (\<lambda>s. cachedDecimals s = Some v \<and> calls_of Decimals s = n)"
  unfolding stable_def
proof (intro allI impI)
  fix s assume P: "cachedDecimals s = Some v \<and> calls_of Decimals s = n"
  from P have hit: "getDecimals env s = (Inr v, s)" by (simp add: getDecimals_hit)
  from P decimals_kept_by_description [OF P, of env] hit
  show "(cachedDecimals (rotateRPC s) = Some v \<and> calls_of Decimals (rotateRPC s) = n) \<and>
       (\<forall>m. cachedDecimals (console_log m s) = Some v \<and> calls_of Decimals (console_log m s) = n) \<and>
       (\<forall>m e. cachedDecimals (console_error m e s) = Some v \<and> calls_of Decimals (console_error m e s) = n) \<and>
       (\<forall>m x. cachedDecimals (console_error_message m x s) = Some v \<and>
              calls_of Decimals (console_error_message m x s) = n) \<and>
       (\<forall>d. cachedDecimals (setTimeout d s) = Some v \<and> calls_of Decimals (setTimeout d s) = n) \<and>
       (cachedDecimals (snd (getDecimals env s)) = Some v \<and> calls_of Decimals (snd (getDecimals env s)) = n) \<and>
       (cachedDecimals (snd (getDescription env s)) = Some v \<and>
        calls_of Decimals (snd (getDescription env s)) = n) \<and>
       (cachedDecimals (record_call LatestAnswer s) = Some v \<and> calls_of Decimals (record_call LatestAnswer s) = n) \<and>
       (cachedDecimals (record_call LatestRoundData s) = Some v \<and>
        calls_of Decimals (record_call LatestRoundData s) = n) \<and>
       (cachedDecimals (record_call GetBlockNumber s) = Some v \<and>
        calls_of Decimals (record_call GetBlockNumber s) = n) \<and>
       (\<forall>f t. cachedDecimals (record_call (QueryFilter f t) s) = Some v \<and>
              calls_of Decimals (record_call (QueryFilter f t) s) = n) \<and>
       (\<forall>x. cachedDecimals (s\<lparr>monitorInterval := x\<rparr>) = Some v \<and>
            calls_of Decimals (s\<lparr>monitorInterval := x\<rparr>) = n)"
    by (simp add: kept_simps)
qed

lemma description_kept_stable:
  "stable env (\<lambda>s. cachedDescription s = Some v \<and> calls_of Description s = n)"
  unfolding stable_def
proof (intro allI impI)
  fix s assume P: "cachedDescription s = Some v \<and> calls_of Description s = n"
  from P have hit: "getDescription env s = (Inr v, s)" by (simp add: getDescription_hit)
  from P description_kept_by_decimals [OF P, of env] hit
  show "(cachedDescription (rotateRPC s) = Some v \<and> calls_of Description (rotateRPC s) = n) \<and>
       (\<forall>m. cachedDescription (console_log m s) = Some v \<and> calls_of Description (console_log m s) = n) \<and>
       (\<forall>m e. cachedDescription (console_error m e s) = Some v \<and>
              calls_of Description (console_error m e s) = n) \<and>
       (\<forall>m x. cachedDescription (console_error_message m x s) = Some v \<and>
              calls_of Description (console_error_message m x s) = n) \<and>
       (\<forall>d. cachedDescription (setTimeout d s) = Some v \<and> calls_of Description (setTimeout d s) = n) \<and>
       (cachedDescription (snd (getDecimals env s)) = Some v \<and>
        calls_of Description (snd (getDecimals env s)) = n) \<and>
       (cachedDescription (snd (getDescription env s)) = Some v \<and>
        calls_of Description (snd (getDescription env s)) = n) \<and>
       (cachedDescription (record_call LatestAnswer s) = Some v \<and>
        calls_of Description (record_call LatestAnswer s) = n) \<and>
       (cachedDescription (record_call LatestRoundData s) = Some v \<and>
        calls_of Description (record_call LatestRoundData s) = n) \<and>
       (cachedDescription (record_call GetBlockNumber s) = Some v \<and>
        calls_of Description (record_call GetBlockNumber s) = n) \<and>
       (\<forall>f t. cachedDescription (record_call (QueryFilter f t) s) = Some v \<and>
              calls_of Description (record_call (QueryFilter f t) s) = n) \<and>
       (\<forall>x. cachedDescription (s\<lparr>monitorInterval := x\<rparr>) = Some v \<and>
            calls_of Description (s\<lparr>monitorInterval := x\<rparr>) = n)"
    by (simp add: kept_simps)
qed

text \<open>A read that is throttled at every attempt.\<close>

lemma throttled_call_resolves_undefined:
  fixes rpc :: "string option \<Rightarrow> nat \<Rightarrow> js_error + 'a"
  assumes "\<forall>ep t. \<exists>err. rpc ep t = Inl err \<and> (isRateLimit err \<or> isFilterError err)"
  shows "fst (executeWithRetry (contract_call req rpc) retries s) = Inr Undefined"
  unfolding executeWithRetry_def
proof (rule ewr_all_transient_result)
  fix s :: NGNUSDOracle
  from assms obtain err where "rpc (c_provider (contract s)) (clock s) = Inl err"
    and "isRateLimit err \<or> isFilterError err" by blast
  then show "\<exists>err s1. contract_call req rpc s = (Inl err, s1) \<and> (isRateLimit err \<or> isFilterError err)"
    by (simp add: contract_call_def)
qed

text \<open>
  The get calls step by step. First, what one step of the retry loop, of a store and of
  another method keeps.
\<close>

lemma overlap_run_append: "overlap_run (xs @ ys) x = overlap_run ys (overlap_run xs x)"
  by (induction xs arbitrary: x) simp_all

lemma next_attempt_keeps:
  "cachedDecimals (snd (next_attempt req i retries s :: 'a progress \<times> NGNUSDOracle)) = cachedDecimals s"
  "cachedDescription (snd (next_attempt req i retries s :: 'a progress \<times> NGNUSDOracle)) = cachedDescription s"
  "calls_of req' (snd (next_attempt req i retries s :: 'a progress \<times> NGNUSDOracle))
     = calls_of req' s + (if req = req' \<and> i < retries then 1 else 0)"
  by (simp_all add: next_attempt_def kept_simps)

lemma on_reply_keeps:
  "cachedDecimals (snd (on_reply req i retries reply s)) = cachedDecimals s"
  "cachedDescription (snd (on_reply req i retries reply s)) = cachedDescription s"
  "req \<noteq> req' \<Longrightarrow> calls_of req' (snd (on_reply req i retries reply s)) = calls_of req' s"
  by (simp_all add: on_reply_def next_attempt_keeps kept_simps split: sum.splits)

lemma elsewhere_keeps:
  "cachedDecimals (elsewhere a s) = cachedDecimals s"
  "cachedDescription (elsewhere a s) = cachedDescription s"
  "calls_of Decimals (elsewhere a s) = calls_of Decimals s"
  "calls_of Description (elsewhere a s) = calls_of Description s"
  by (cases a; simp add: kept_simps)+

text \<open>
  The steps of the other methods are the effects that a stable property is kept by, so what
  the lemmas on stable properties say of a method that runs alone, the schedules below say
  of its steps.
\<close>

lemma stable_elsewhere: "stable env P \<Longrightarrow> P s \<Longrightarrow> P (elsewhere a s)"
  by (cases a) (simp_all add: stableD)

text \<open>An event addressed to call \<open>j\<close> resumes that call and no other.\<close>

lemma overlap_step_target:
  "target e = Some j \<Longrightarrow>
   overlap_step e (s, cs) =
     (if j < length cs then (case resume e (cs ! j) s of (c, s1) \<Rightarrow> (s1, cs[j := c])) else (s, cs))"
  by (cases e) simp_all

lemma step_other:
  assumes "target e \<noteq> Some j" and "j < length cs" and "overlap_step e (s, cs) = (s', cs')"
  shows "cs' ! j = cs ! j \<and> j < length cs'"
proof (cases "target e")
  case None
  with assms show ?thesis
    by (cases e) (auto simp: nth_append split: prod.splits)
next
  case (Some k)
  with assms(1) have kj: "k \<noteq> j" by simp
  from overlap_step_target [OF Some, of s cs] assms(2,3) kj show ?thesis
    by (auto split: if_splits prod.splits)
qed

lemma step_own:
  assumes "target e = Some j" and "j < length cs" and "overlap_step e (s, cs) = (s', cs')"
  shows "(cs' ! j, s') = resume e (cs ! j) s \<and> length cs' = length cs"
  using overlap_step_target [OF assms(1), of s cs] assms(2,3)
  by (auto split: prod.splits)

lemma others_keep_call:
  "inputs_to j es = [] \<Longrightarrow> j < length cs \<Longrightarrow> overlap_run es (s, cs) = (s', cs') \<Longrightarrow>
   cs' ! j = cs ! j \<and> j < length cs'"
proof (induction es arbitrary: s cs)
  case Nil
  then show ?case by simp
next
  case (Cons e es)
  from Cons.prems(1) have e: "target e \<noteq> Some j" and rest: "inputs_to j es = []"
    by (auto simp: inputs_to_def split: if_splits)
  obtain s1 cs1 where st: "overlap_step e (s, cs) = (s1, cs1)" by (cases "overlap_step e (s, cs)")
  from step_other [OF e Cons.prems(2) st] have k: "cs1 ! j = cs ! j" "j < length cs1" by simp_all
  from Cons.prems(3) st have "overlap_run es (s1, cs1) = (s', cs')" by simp
  from Cons.IH [OF rest k(2) this] k(1) show ?case by simp
qed

text \<open>
  The first event addressed to call \<open>j\<close> finds the call where the schedule started, and
  the rest of the schedule goes on from what that event made of it.
\<close>

lemma feed:
  assumes "inputs_to j es = x # xs" and "j < length cs" and "overlap_run es (s, cs) = (s', cs')"
  shows "\<exists>s1 s2 cs2 post. j < length cs2 \<and> (cs2 ! j, s2) = resume x (cs ! j) s1
       \<and> inputs_to j post = xs \<and> overlap_run post (s2, cs2) = (s', cs')"
proof -
  from assms(1) obtain pre post where es: "es = pre @ x # post"
    and pre: "inputs_to j pre = []" and x: "target x = Some j" and post: "inputs_to j post = xs"
    by (auto simp: inputs_to_def filter_eq_Cons_iff filter_empty_conv)
  obtain s1 cs1 where r1: "overlap_run pre (s, cs) = (s1, cs1)" by (cases "overlap_run pre (s, cs)")
  obtain s2 cs2 where r2: "overlap_step x (s1, cs1) = (s2, cs2)" by (cases "overlap_step x (s1, cs1)")
  from others_keep_call [OF pre assms(2) r1] have k: "cs1 ! j = cs ! j" "j < length cs1" by simp_all
  from step_own [OF x k(2) r2] k have own: "(cs2 ! j, s2) = resume x (cs ! j) s1" "j < length cs2"
    by simp_all
  from assms(3) have "overlap_run post (s2, cs2) = (s', cs')"
    by (simp add: es overlap_run_append r1 r2)
  with own post show ?thesis by blast
qed

text \<open>
  A call that runs with nothing in between goes through the steps of the retry loop: the
  steps agree with \<open>executeWithRetry\<close>.
\<close>

lemma alone_settled: "alone rpc req retries k (Settled r, s) = (Settled r, s)"
  by (cases k) simp_all

lemma alone_executeWithRetry:
  "2 * (retries - i) \<le> k \<Longrightarrow>
   alone rpc req retries k (next_attempt req i retries s) =
     (Settled (fst (executeWithRetry_from i (contract_call req rpc) retries s)),
      snd (executeWithRetry_from i (contract_call req rpc) retries s))"
proof (induction "retries - i" arbitrary: i s k)
  case 0
  then show ?case by (simp add: next_attempt_def ewr_done alone_settled)
next
  case (Suc n)
  then have lt: "i < retries" by simp
  have n: "n = retries - (i + 1)" using Suc.hyps(2) by simp
  from Suc.prems lt obtain k1 where k: "k = Suc (Suc k1)" and k1: "2 * (retries - (i + 1)) \<le> k1"
    by (cases k; cases "k - 1") auto
  define r where "r = rpc (c_provider (contract s)) (clock s)"
  define s1 where "s1 = record_call req s"
  have call: "contract_call req rpc s = (r, s1)"
    by (simp add: contract_call_def r_def s1_def)
  have step: "alone rpc req retries k (next_attempt req i retries s)
      = alone rpc req retries (Suc k1) (on_reply req i retries r s1)"
    using lt by (simp add: next_attempt_def k r_def s1_def record_call_fields)
  show ?case
  proof (cases r)
    case (Inr v)
    have reply: "on_reply req i retries r s1 = (Settled (Inr (Val v)), s1)"
      by (simp add: on_reply_def Inr)
    have "executeWithRetry_from i (contract_call req rpc) retries s = (Inr (Val v), s1)"
      using ewr_success [of i retries "contract_call req rpc" s v s1] lt call Inr by simp
    then show ?thesis
      unfolding step reply by (simp add: alone_settled)
  next
    case (Inl err)
    show ?thesis
    proof (cases "isRateLimit err \<or> isFilterError err")
      case True
      define s2 where "s2 = setTimeout (min (1000 * 2 ^ i) 10000)
          (rotateRPC (console_log (retry_notice err i retries) s1))"
      have "alone rpc req retries (Suc k1) (on_reply req i retries r s1)
          = alone rpc req retries k1 (next_attempt req (i + 1) retries s2)"
        using True by (simp add: on_reply_def Inl on_timer_def s2_def)
      moreover have "executeWithRetry_from i (contract_call req rpc) retries s
          = executeWithRetry_from (i + 1) (contract_call req rpc) retries s2"
        using ewr_transient [of i retries "contract_call req rpc" s err s1] lt call Inl True
        by (simp add: s2_def)
      ultimately show ?thesis
        unfolding step using Suc.hyps(1) [OF n k1, of s2] by simp
    next
      case False
      show ?thesis
      proof (cases "i = retries - 1")
        case True
        have reply: "on_reply req i retries r s1 = (Settled (Inl err), s1)"
          using True False by (simp add: on_reply_def Inl)
        have "executeWithRetry_from i (contract_call req rpc) retries s = (Inl err, s1)"
          using ewr_other_last [of i retries "contract_call req rpc" s err s1] lt call Inl False True
          by simp
        then show ?thesis
          unfolding step reply by (simp add: alone_settled)
      next
        case nl: False
        have k2: "2 * (retries - (i + 1)) \<le> Suc k1" using k1 by simp
        have "executeWithRetry_from i (contract_call req rpc) retries s
            = executeWithRetry_from (i + 1) (contract_call req rpc) retries s1"
          using ewr_other_again [of i retries "contract_call req rpc" s err s1] lt call Inl False nl
          by simp
        moreover have "on_reply req i retries r s1 = next_attempt req (i + 1) retries s1"
          using False nl by (simp add: on_reply_def Inl)
        ultimately show ?thesis
          unfolding step using Suc.hyps(1) [OF n k2, of s1] by simp
      qed
    qed
  qed
qed

lemma store_decimals_keeps:
  "cachedDescription (snd (store_decimals x)) = cachedDescription (snd x)"
  "calls_of req (snd (store_decimals x)) = calls_of req (snd x)"
  "fst (store_decimals x) = fst x"
  by (cases x; cases "fst x"; auto simp: store_decimals_def kept_simps split: progress.splits sum.splits)+

lemma store_description_keeps:
  "cachedDecimals (snd (store_description x)) = cachedDecimals (snd x)"
  "calls_of req (snd (store_description x)) = calls_of req (snd x)"
  "fst (store_description x) = fst x"
  by (cases x; cases "fst x"; auto simp: store_description_def kept_simps split: progress.splits sum.splits)+

lemma getDecimals_alone:
  "getDecimals_begin s = (Settled r, s') \<Longrightarrow> getDecimals env s = (r, s')"
  "cachedDecimals s = None \<Longrightarrow>
   store_decimals (alone (rpc_decimals env) Decimals 3 6 (getDecimals_begin s))
     = (Settled (fst (getDecimals env s)), snd (getDecimals env s))"
proof -
  show "getDecimals_begin s = (Settled r, s') \<Longrightarrow> getDecimals env s = (r, s')"
    by (auto simp: getDecimals_begin_def getDecimals_def next_attempt_def store_decimals_def
        split: option.splits)
next
  assume cold: "cachedDecimals s = None"
  have b: "getDecimals_begin s = next_attempt Decimals 0 3 s"
    by (simp add: getDecimals_begin_def cold next_attempt_def store_decimals_def)
  show "store_decimals (alone (rpc_decimals env) Decimals 3 6 (getDecimals_begin s))
     = (Settled (fst (getDecimals env s)), snd (getDecimals env s))"
    unfolding b
    by (cases "executeWithRetry_from 0 (contract_call Decimals (rpc_decimals env)) 3 s")
       (auto simp: alone_executeWithRetry [of 3 0 6] getDecimals_def cold executeWithRetry_def
          store_decimals_def split: sum.splits)
qed

text \<open>
  While no call is suspended in a fetch of decimals, no event resumes such a fetch: an
  event keeps the cached decimals and the number of its fetches.
\<close>

lemma resume_idle_decimals:
  assumes "\<not> fetching_decimals c" and "resume e c s = (c', s')"
  shows "cachedDecimals s' = cachedDecimals s \<and> calls_of Decimals s' = calls_of Decimals s
       \<and> \<not> fetching_decimals c' \<and> (\<forall>p. c' = DecimalsCall p \<longrightarrow> c = DecimalsCall p)"
proof (cases c)
  case (DecimalsCall p)
  with assms(1) obtain r where "p = Settled r" by (cases p) auto
  with DecimalsCall assms(2) show ?thesis by (cases e) auto
next
  case (DescriptionCall p)
  show ?thesis
  proof (cases p)
    case (Settled r)
    with DescriptionCall assms(2) show ?thesis by (cases e) auto
  next
    case (Suspended w)
    show ?thesis
    proof (cases w)
      case (AwaitingReply i)
      with Suspended DescriptionCall assms(2) show ?thesis
        by (cases e)
           (auto simp: getDescription_reply_def store_description_keeps on_reply_keeps
              split: prod.splits dest!: arg_cong [where f = snd])
    next
      case (AwaitingTimer i)
      with Suspended DescriptionCall assms(2) show ?thesis
        by (cases e)
           (auto simp: getDescription_timer_def on_timer_def store_description_keeps next_attempt_keeps
              split: prod.splits dest!: arg_cong [where f = snd])
    qed
  qed
qed

lemma decimals_idle_nth: "decimals_idle cs \<Longrightarrow> j < length cs \<Longrightarrow> \<not> fetching_decimals (cs ! j)"
  by (simp add: decimals_idle_def list_all_length)

lemma decimals_idle_update:
  "decimals_idle cs \<Longrightarrow> \<not> fetching_decimals c \<Longrightarrow> decimals_idle (cs[j := c])"
  by (auto simp: decimals_idle_def list_all_iff dest: set_update_subset_insert [THEN subsetD])

lemma decimals_idle_snoc:
  "decimals_idle (cs @ [c]) = (decimals_idle cs \<and> \<not> fetching_decimals c)"
  by (simp add: decimals_idle_def)

lemma getDecimals_begin_hit: "cachedDecimals s = Some v \<Longrightarrow> getDecimals_begin s = (Settled (Inr v), s)"
  by (simp add: getDecimals_begin_def)

lemma getDescription_begin_keeps:
  "cachedDecimals (snd (getDescription_begin s)) = cachedDecimals s"
  "calls_of Decimals (snd (getDescription_begin s)) = calls_of Decimals s"
  by (simp_all add: getDescription_begin_def store_description_keeps next_attempt_keeps
      split: option.splits)

lemma decimals_settled_step:
  assumes "cachedDecimals s = Some v" and "decimals_idle cs" and "overlap_step e (s, cs) = (s', cs')"
  shows "cachedDecimals s' = Some v \<and> calls_of Decimals s' = calls_of Decimals s
       \<and> decimals_idle cs' \<and> length cs \<le> length cs'
       \<and> (\<forall>k<length cs'. \<forall>p. cs' ! k = DecimalsCall p \<longrightarrow>
             (k < length cs \<and> cs ! k = DecimalsCall p) \<or> p = Settled (Inr v))"
proof -
  have deliver: ?thesis if t: "target e = Some j" for j
  proof (cases "j < length cs")
    case False
    with overlap_step_target [OF t, of s cs] assms show ?thesis by auto
  next
    case True
    obtain c s1 where r: "resume e (cs ! j) s = (c, s1)" by (cases "resume e (cs ! j) s")
    from overlap_step_target [OF t, of s cs] assms(3) True r
    have eq: "s' = s1" "cs' = cs[j := c]" by simp_all
    from resume_idle_decimals [OF decimals_idle_nth [OF assms(2) True] r]
    have k: "cachedDecimals s1 = cachedDecimals s" "calls_of Decimals s1 = calls_of Decimals s"
      "\<not> fetching_decimals c" "\<forall>p. c = DecimalsCall p \<longrightarrow> cs ! j = DecimalsCall p"
      by simp_all
    show ?thesis
      using assms(1,2) k True
      by (auto simp: eq decimals_idle_update nth_list_update)
  qed
  show ?thesis
  proof (cases e)
    case CallGetDecimals
    with assms show ?thesis
      by (auto simp: getDecimals_begin_hit decimals_idle_snoc nth_append less_Suc_eq split: if_splits)
  next
    case CallGetDescription
    obtain p s1 where b: "getDescription_begin s = (p, s1)" by (cases "getDescription_begin s")
    from getDescription_begin_keeps [of s] b
    have "cachedDecimals s1 = cachedDecimals s" "calls_of Decimals s1 = calls_of Decimals s"
      by simp_all
    with CallGetDescription assms b show ?thesis
      by (auto simp: decimals_idle_snoc nth_append less_Suc_eq split: if_splits)
  next
    case (Elsewhere a)
    with assms show ?thesis by (auto simp: elsewhere_keeps)
  next
    case (DecimalsReply j reply)
    then show ?thesis by (intro deliver [of j]) simp
  next
    case (DescriptionReply j reply)
    then show ?thesis by (intro deliver [of j]) simp
  next
    case (TimerFires j)
    then show ?thesis by (intro deliver [of j]) simp
  qed
qed

lemma decimals_settled_run:
  "cachedDecimals s = Some v \<Longrightarrow> decimals_idle cs \<Longrightarrow> overlap_run es (s, cs) = (s', cs') \<Longrightarrow>
   cachedDecimals s' = Some v \<and> calls_of Decimals s' = calls_of Decimals s
   \<and> decimals_idle cs' \<and> length cs \<le> length cs'
   \<and> (\<forall>k<length cs'. \<forall>p. cs' ! k = DecimalsCall p \<longrightarrow>
         (k < length cs \<and> cs ! k = DecimalsCall p) \<or> p = Settled (Inr v))"
proof (induction es arbitrary: s cs)
  case Nil
  then show ?case by auto
next
  case (Cons e es)
  obtain s1 cs1 where st: "overlap_step e (s, cs) = (s1, cs1)" by (cases "overlap_step e (s, cs)")
  note one = decimals_settled_step [OF Cons.prems(1,2) st]
  from Cons.prems(3) st have run: "overlap_run es (s1, cs1) = (s', cs')" by simp
  from one have c1: "cachedDecimals s1 = Some v" and i1: "decimals_idle cs1" by simp_all
  note rest = Cons.IH [OF c1 i1 run]
  show ?case
  proof (intro conjI allI impI)
    show "cachedDecimals s' = Some v" using rest by simp
    show "calls_of Decimals s' = calls_of Decimals s" using rest one by simp
    show "decimals_idle cs'" using rest by simp
    show "length cs \<le> length cs'" using rest one by simp
  next
    fix k p
    assume k: "k < length cs'" and p: "cs' ! k = DecimalsCall p"
    from rest k p have "(k < length cs1 \<and> cs1 ! k = DecimalsCall p) \<or> p = Settled (Inr v)"
      by blast
    then show "(k < length cs \<and> cs ! k = DecimalsCall p) \<or> p = Settled (Inr v)"
      using one by blast
  qed
qed

lemma decimals_kept_once_idle:
  assumes "cachedDecimals s = Some v" and "decimals_idle cs" and "overlap_run es (s, cs) = (s', cs')"
  shows "cachedDecimals s' = Some v \<and> calls_of Decimals s' = calls_of Decimals s
       \<and> decimals_idle cs'
       \<and> (\<forall>k. length cs \<le> k \<and> k < length cs' \<longrightarrow>
             (\<forall>p. cs' ! k = DecimalsCall p \<longrightarrow> p = Settled (Inr v)))"
  using decimals_settled_run [OF assms] by auto

text \<open>
  A call for decimals whose every reply is a transient error: it waits three times, falls
  out of the loop and stores \<open>undefined\<close>, whatever else runs in between.
\<close>

lemma resume_decimals_throttled:
  assumes "isRateLimit err \<or> isFilterError err"
  shows "fst (resume (DecimalsReply j (Inl err)) (DecimalsCall (Suspended (AwaitingReply i))) s)
     = DecimalsCall (Suspended (AwaitingTimer i))"
  using assms by (auto simp: getDecimals_reply_def on_reply_def store_decimals_def)

lemma resume_decimals_timer:
  "resume (TimerFires j) (DecimalsCall (Suspended (AwaitingTimer i))) s =
     (if i + 1 < 3 then (DecimalsCall (Suspended (AwaitingReply (i + 1))), record_call Decimals s)
      else (DecimalsCall (Settled (Inr Undefined)), s\<lparr>cachedDecimals := Some Undefined\<rparr>))"
  by (simp add: getDecimals_timer_def on_timer_def next_attempt_def store_decimals_def)

lemma throttled_decimals_call:
  assumes cold: "cachedDecimals s = None"
    and e0: "isRateLimit e0 \<or> isFilterError e0"
    and e1: "isRateLimit e1 \<or> isFilterError e1"
    and e2: "isRateLimit e2 \<or> isFilterError e2"
    and own: "inputs_to (length cs) es =
        [DecimalsReply (length cs) (Inl e0), TimerFires (length cs),
         DecimalsReply (length cs) (Inl e1), TimerFires (length cs),
         DecimalsReply (length cs) (Inl e2)]"
    and run: "overlap_run (CallGetDecimals # es @ [TimerFires (length cs)]) (s, cs) = (s', cs')"
  shows "length cs < length cs' \<and> cs' ! length cs = DecimalsCall (Settled (Inr Undefined))
       \<and> cachedDecimals s' = Some Undefined"
proof -
  define j where "j = length cs"
  define c0 where "c0 = cs @ [DecimalsCall (Suspended (AwaitingReply 0))]"
  have start: "overlap_step CallGetDecimals (s, cs) = (record_call Decimals s, c0)"
    by (simp add: getDecimals_begin_def cold next_attempt_def store_decimals_def c0_def)
  obtain sa ca where ra: "overlap_run es (record_call Decimals s, c0) = (sa, ca)"
    by (cases "overlap_run es (record_call Decimals s, c0)")
  have "overlap_run (CallGetDecimals # es @ [TimerFires j]) (s, cs)
      = overlap_step (TimerFires j) (overlap_run es (overlap_step CallGetDecimals (s, cs)))"
    by (simp add: overlap_run_append del: overlap_step.simps)
  then have final: "overlap_step (TimerFires j) (sa, ca) = (s', cs')"
    using run unfolding start ra j_def by simp
  have j0: "j < length c0" "c0 ! j = DecimalsCall (Suspended (AwaitingReply 0))"
    by (simp_all add: c0_def j_def)
  note own' = own [folded j_def]
  from feed [OF own' j0(1) ra] obtain s1 t1 c1 p1 where
    f1: "j < length c1" "(c1 ! j, t1) = resume (DecimalsReply j (Inl e0)) (c0 ! j) s1"
      "inputs_to j p1 = [TimerFires j, DecimalsReply j (Inl e1), TimerFires j, DecimalsReply j (Inl e2)]"
      "overlap_run p1 (t1, c1) = (sa, ca)"
    by blast
  from f1(2) have k1: "c1 ! j = DecimalsCall (Suspended (AwaitingTimer 0))"
    using resume_decimals_throttled [OF e0, of j 0 s1] by (simp add: j0(2) fst_def split: prod.splits)
  from feed [OF f1(3) f1(1) f1(4)] obtain s2 t2 c2 p2 where
    f2: "j < length c2" "(c2 ! j, t2) = resume (TimerFires j) (c1 ! j) s2"
      "inputs_to j p2 = [DecimalsReply j (Inl e1), TimerFires j, DecimalsReply j (Inl e2)]"
      "overlap_run p2 (t2, c2) = (sa, ca)"
    by blast
  from f2(2) have k2: "c2 ! j = DecimalsCall (Suspended (AwaitingReply 1))"
    by (simp add: k1 resume_decimals_timer del: resume.simps)
  from feed [OF f2(3) f2(1) f2(4)] obtain s3 t3 c3 p3 where
    f3: "j < length c3" "(c3 ! j, t3) = resume (DecimalsReply j (Inl e1)) (c2 ! j) s3"
      "inputs_to j p3 = [TimerFires j, DecimalsReply j (Inl e2)]"
      "overlap_run p3 (t3, c3) = (sa, ca)"
    by blast
  from f3(2) have k3: "c3 ! j = DecimalsCall (Suspended (AwaitingTimer 1))"
    using resume_decimals_throttled [OF e1, of j 1 s3] by (simp add: k2 fst_def split: prod.splits)
  from feed [OF f3(3) f3(1) f3(4)] obtain s4 t4 c4 p4 where
    f4: "j < length c4" "(c4 ! j, t4) = resume (TimerFires j) (c3 ! j) s4"
      "inputs_to j p4 = [DecimalsReply j (Inl e2)]"
      "overlap_run p4 (t4, c4) = (sa, ca)"
    by blast
  from f4(2) have k4: "c4 ! j = DecimalsCall (Suspended (AwaitingReply 2))"
    by (simp add: k3 resume_decimals_timer del: resume.simps)
  from feed [OF f4(3) f4(1) f4(4)] obtain s5 t5 c5 p5 where
    f5: "j < length c5" "(c5 ! j, t5) = resume (DecimalsReply j (Inl e2)) (c4 ! j) s5"
      "inputs_to j p5 = []"
      "overlap_run p5 (t5, c5) = (sa, ca)"
    by blast
  from f5(2) have k5: "c5 ! j = DecimalsCall (Suspended (AwaitingTimer 2))"
    using resume_decimals_throttled [OF e2, of j 2 s5] by (simp add: k4 fst_def split: prod.splits)
  from others_keep_call [OF f5(3) f5(1) f5(4)] k5
  have k6: "ca ! j = DecimalsCall (Suspended (AwaitingTimer 2))" "j < length ca" by simp_all
  from step_own [OF _ k6(2) final]
  have "(cs' ! j, s') = resume (TimerFires j) (ca ! j) sa" "length cs' = length ca" by simp_all
  then have "cs' ! j = DecimalsCall (Settled (Inr Undefined))" "cachedDecimals s' = Some Undefined"
    "j < length cs'"
    using k6 by (simp_all add: resume_decimals_timer del: resume.simps)
  then show ?thesis by (simp add: j_def)
qed

lemma getDescription_alone:
  "getDescription_begin s = (Settled r, s') \<Longrightarrow> getDescription env s = (r, s')"
  "cachedDescription s = None \<Longrightarrow>
   store_description (alone (rpc_description env) Description 3 6 (getDescription_begin s))
     = (Settled (fst (getDescription env s)), snd (getDescription env s))"
proof -
  show "getDescription_begin s = (Settled r, s') \<Longrightarrow> getDescription env s = (r, s')"
    by (auto simp: getDescription_begin_def getDescription_def next_attempt_def store_description_def
        split: option.splits)
next
  assume cold: "cachedDescription s = None"
  have b: "getDescription_begin s = next_attempt Description 0 3 s"
    by (simp add: getDescription_begin_def cold next_attempt_def store_description_def)
  show "store_description (alone (rpc_description env) Description 3 6 (getDescription_begin s))
     = (Settled (fst (getDescription env s)), snd (getDescription env s))"
    unfolding b
    by (cases "executeWithRetry_from 0 (contract_call Description (rpc_description env)) 3 s")
       (auto simp: alone_executeWithRetry [of 3 0 6] getDescription_def cold executeWithRetry_def
          store_description_def split: sum.splits)
qed

text \<open>
  While no call is suspended in a fetch of description, no event resumes such a fetch: an
  event keeps the cached description and the number of its fetches.
\<close>

lemma resume_idle_description:
  assumes "\<not> fetching_description c" and "resume e c s = (c', s')"
  shows "cachedDescription s' = cachedDescription s \<and> calls_of Description s' = calls_of Description s
       \<and> \<not> fetching_description c' \<and> (\<forall>p. c' = DescriptionCall p \<longrightarrow> c = DescriptionCall p)"
proof (cases c)
  case (DescriptionCall p)
  with assms(1) obtain r where "p = Settled r" by (cases p) auto
  with DescriptionCall assms(2) show ?thesis by (cases e) auto
next
  case (DecimalsCall p)
  show ?thesis
  proof (cases p)
    case (Settled r)
    with DecimalsCall assms(2) show ?thesis by (cases e) auto
  next
    case (Suspended w)
    show ?thesis
    proof (cases w)
      case (AwaitingReply i)
      with Suspended DecimalsCall assms(2) show ?thesis
        by (cases e)
           (auto simp: getDecimals_reply_def store_decimals_keeps on_reply_keeps
              split: prod.splits dest!: arg_cong [where f = snd])
    next
      case (AwaitingTimer i)
      with Suspended DecimalsCall assms(2) show ?thesis
        by (cases e)
           (auto simp: getDecimals_timer_def on_timer_def store_decimals_keeps next_attempt_keeps
              split: prod.splits dest!: arg_cong [where f = snd])
    qed
  qed
qed

lemma description_idle_nth: "description_idle cs \<Longrightarrow> j < length cs \<Longrightarrow> \<not> fetching_description (cs ! j)"
  by (simp add: description_idle_def list_all_length)

lemma description_idle_update:
  "description_idle cs \<Longrightarrow> \<not> fetching_description c \<Longrightarrow> description_idle (cs[j := c])"
  by (auto simp: description_idle_def list_all_iff dest: set_update_subset_insert [THEN subsetD])

lemma description_idle_snoc:
  "description_idle (cs @ [c]) = (description_idle cs \<and> \<not> fetching_description c)"
  by (simp add: description_idle_def)

lemma getDescription_begin_hit: "cachedDescription s = Some v \<Longrightarrow> getDescription_begin s = (Settled (Inr v), s)"
  by (simp add: getDescription_begin_def)

lemma getDecimals_begin_keeps:
  "cachedDescription (snd (getDecimals_begin s)) = cachedDescription s"
  "calls_of Description (snd (getDecimals_begin s)) = calls_of Description s"
  by (simp_all add: getDecimals_begin_def store_decimals_keeps next_attempt_keeps
      split: option.splits)

lemma description_settled_step:
  assumes "cachedDescription s = Some v" and "description_idle cs" and "overlap_step e (s, cs) = (s', cs')"
  shows "cachedDescription s' = Some v \<and> calls_of Description s' = calls_of Description s
       \<and> description_idle cs' \<and> length cs \<le> length cs'
       \<and> (\<forall>k<length cs'. \<forall>p. cs' ! k = DescriptionCall p \<longrightarrow>
             (k < length cs \<and> cs ! k = DescriptionCall p) \<or> p = Settled (Inr v))"
proof -
  have deliver: ?thesis if t: "target e = Some j" for j
  proof (cases "j < length cs")
    case False
    with overlap_step_target [OF t, of s cs] assms show ?thesis by auto
  next
    case True
    obtain c s1 where r: "resume e (cs ! j) s = (c, s1)" by (cases "resume e (cs ! j) s")
    from overlap_step_target [OF t, of s cs] assms(3) True r
    have eq: "s' = s1" "cs' = cs[j := c]" by simp_all
    from resume_idle_description [OF description_idle_nth [OF assms(2) True] r]
    have k: "cachedDescription s1 = cachedDescription s" "calls_of Description s1 = calls_of Description s"
      "\<not> fetching_description c" "\<forall>p. c = DescriptionCall p \<longrightarrow> cs ! j = DescriptionCall p"
      by simp_all
    show ?thesis
      using assms(1,2) k True
      by (auto simp: eq description_idle_update nth_list_update)
  qed
  show ?thesis
  proof (cases e)
    case CallGetDescription
    with assms show ?thesis
      by (auto simp: getDescription_begin_hit description_idle_snoc nth_append less_Suc_eq split: if_splits)
  next
    case CallGetDecimals
    obtain p s1 where b: "getDecimals_begin s = (p, s1)" by (cases "getDecimals_begin s")
    from getDecimals_begin_keeps [of s] b
    have "cachedDescription s1 = cachedDescription s" "calls_of Description s1 = calls_of Description s"
      by simp_all
    with CallGetDecimals assms b show ?thesis
      by (auto simp: description_idle_snoc nth_append less_Suc_eq split: if_splits)
  next
    case (Elsewhere a)
    with assms show ?thesis by (auto simp: elsewhere_keeps)
  next
    case (DescriptionReply j reply)
    then show ?thesis by (intro deliver [of j]) simp
  next
    case (DecimalsReply j reply)
    then show ?thesis by (intro deliver [of j]) simp
  next
    case (TimerFires j)
    then show ?thesis by (intro deliver [of j]) simp
  qed
qed

lemma description_settled_run:
  "cachedDescription s = Some v \<Longrightarrow> description_idle cs \<Longrightarrow> overlap_run es (s, cs) = (s', cs') \<Longrightarrow>
   cachedDescription s' = Some v \<and> calls_of Description s' = calls_of Description s
   \<and> description_idle cs' \<and> length cs \<le> length cs'
   \<and> (\<forall>k<length cs'. \<forall>p. cs' ! k = DescriptionCall p \<longrightarrow>
         (k < length cs \<and> cs ! k = DescriptionCall p) \<or> p = Settled (Inr v))"
proof (induction es arbitrary: s cs)
  case Nil
  then show ?case by auto
next
  case (Cons e es)
  obtain s1 cs1 where st: "overlap_step e (s, cs) = (s1, cs1)" by (cases "overlap_step e (s, cs)")
  note one = description_settled_step [OF Cons.prems(1,2) st]
  from Cons.prems(3) st have run: "overlap_run es (s1, cs1) = (s', cs')" by simp
  from one have c1: "cachedDescription s1 = Some v" and i1: "description_idle cs1" by simp_all
  note rest = Cons.IH [OF c1 i1 run]
  show ?case
  proof (intro conjI allI impI)
    show "cachedDescription s' = Some v" using rest by simp
    show "calls_of Description s' = calls_of Description s" using rest one by simp
    show "description_idle cs'" using rest by simp
    show "length cs \<le> length cs'" using rest one by simp
  next
    fix k p
    assume k: "k < length cs'" and p: "cs' ! k = DescriptionCall p"
    from rest k p have "(k < length cs1 \<and> cs1 ! k = DescriptionCall p) \<or> p = Settled (Inr v)"
      by blast
    then show "(k < length cs \<and> cs ! k = DescriptionCall p) \<or> p = Settled (Inr v)"
      using one by blast
  qed
qed

lemma description_kept_once_idle:
  assumes "cachedDescription s = Some v" and "description_idle cs" and "overlap_run es (s, cs) = (s', cs')"
  shows "cachedDescription s' = Some v \<and> calls_of Description s' = calls_of Description s
       \<and> description_idle cs'
       \<and> (\<forall>k. length cs \<le> k \<and> k < length cs' \<longrightarrow>
             (\<forall>p. cs' ! k = DescriptionCall p \<longrightarrow> p = Settled (Inr v)))"
  using description_settled_run [OF assms] by auto

text \<open>
  A call for description whose every reply is a transient error: it waits three times, falls
  out of the loop and stores \<open>undefined\<close>, whatever else runs in between.
\<close>

lemma resume_description_throttled:
  assumes "isRateLimit err \<or> isFilterError err"
  shows "fst (resume (DescriptionReply j (Inl err)) (DescriptionCall (Suspended (AwaitingReply i))) s)
     = DescriptionCall (Suspended (AwaitingTimer i))"
  using assms by (auto simp: getDescription_reply_def on_reply_def store_description_def)

lemma resume_description_timer:
  "resume (TimerFires j) (DescriptionCall (Suspended (AwaitingTimer i))) s =
     (if i + 1 < 3 then (DescriptionCall (Suspended (AwaitingReply (i + 1))), record_call Description s)
      else (DescriptionCall (Settled (Inr Undefined)), s\<lparr>cachedDescription := Some Undefined\<rparr>))"
  by (simp add: getDescription_timer_def on_timer_def next_attempt_def store_description_def)

lemma throttled_description_call:
  assumes cold: "cachedDescription s = None"
    and e0: "isRateLimit e0 \<or> isFilterError e0"
    and e1: "isRateLimit e1 \<or> isFilterError e1"
    and e2: "isRateLimit e2 \<or> isFilterError e2"
    and own: "inputs_to (length cs) es =
        [DescriptionReply (length cs) (Inl e0), TimerFires (length cs),
         DescriptionReply (length cs) (Inl e1), TimerFires (length cs),
         DescriptionReply (length cs) (Inl e2)]"
    and run: "overlap_run (CallGetDescription # es @ [TimerFires (length cs)]) (s, cs) = (s', cs')"
  shows "length cs < length cs' \<and> cs' ! length cs = DescriptionCall (Settled (Inr Undefined))
       \<and> cachedDescription s' = Some Undefined"
proof -
  define j where "j = length cs"
  define c0 where "c0 = cs @ [DescriptionCall (Suspended (AwaitingReply 0))]"
  have start: "overlap_step CallGetDescription (s, cs) = (record_call Description s, c0)"
    by (simp add: getDescription_begin_def cold next_attempt_def store_description_def c0_def)
  obtain sa ca where ra: "overlap_run es (record_call Description s, c0) = (sa, ca)"
    by (cases "overlap_run es (record_call Description s, c0)")
  have "overlap_run (CallGetDescription # es @ [TimerFires j]) (s, cs)
      = overlap_step (TimerFires j) (overlap_run es (overlap_step CallGetDescription (s, cs)))"
    by (simp add: overlap_run_append del: overlap_step.simps)
  then have final: "overlap_step (TimerFires j) (sa, ca) = (s', cs')"
    using run unfolding start ra j_def by simp
  have j0: "j < length c0" "c0 ! j = DescriptionCall (Suspended (AwaitingReply 0))"
    by (simp_all add: c0_def j_def)
  note own' = own [folded j_def]
  from feed [OF own' j0(1) ra] obtain s1 t1 c1 p1 where
    f1: "j < length c1" "(c1 ! j, t1) = resume (DescriptionReply j (Inl e0)) (c0 ! j) s1"
      "inputs_to j p1 = [TimerFires j, DescriptionReply j (Inl e1), TimerFires j, DescriptionReply j (Inl e2)]"
      "overlap_run p1 (t1, c1) = (sa, ca)"
    by blast
  from f1(2) have k1: "c1 ! j = DescriptionCall (Suspended (AwaitingTimer 0))"
    using resume_description_throttled [OF e0, of j 0 s1] by (simp add: j0(2) fst_def split: prod.splits)
  from feed [OF f1(3) f1(1) f1(4)] obtain s2 t2 c2 p2 where
    f2: "j < length c2" "(c2 ! j, t2) = resume (TimerFires j) (c1 ! j) s2"
      "inputs_to j p2 = [DescriptionReply j (Inl e1), TimerFires j, DescriptionReply j (Inl e2)]"
      "overlap_run p2 (t2, c2) = (sa, ca)"
    by blast
  from f2(2) have k2: "c2 ! j = DescriptionCall (Suspended (AwaitingReply 1))"
    by (simp add: k1 resume_description_timer del: resume.simps)
  from feed [OF f2(3) f2(1) f2(4)] obtain s3 t3 c3 p3 where
    f3: "j < length c3" "(c3 ! j, t3) = resume (DescriptionReply j (Inl e1)) (c2 ! j) s3"
      "inputs_to j p3 = [TimerFires j, DescriptionReply j (Inl e2)]"
      "overlap_run p3 (t3, c3) = (sa, ca)"
    by blast
  from f3(2) have k3: "c3 ! j = DescriptionCall (Suspended (AwaitingTimer 1))"
    using resume_description_throttled [OF e1, of j 1 s3] by (simp add: k2 fst_def split: prod.splits)
  from feed [OF f3(3) f3(1) f3(4)] obtain s4 t4 c4 p4 where
    f4: "j < length c4" "(c4 ! j, t4) = resume (TimerFires j) (c3 ! j) s4"
      "inputs_to j p4 = [DescriptionReply j (Inl e2)]"
      "overlap_run p4 (t4, c4) = (sa, ca)"
    by blast
  from f4(2) have k4: "c4 ! j = DescriptionCall (Suspended (AwaitingReply 2))"
    by (simp add: k3 resume_description_timer del: resume.simps)
  from feed [OF f4(3) f4(1) f4(4)] obtain s5 t5 c5 p5 where
    f5: "j < length c5" "(c5 ! j, t5) = resume (DescriptionReply j (Inl e2)) (c4 ! j) s5"
      "inputs_to j p5 = []"
      "overlap_run p5 (t5, c5) = (sa, ca)"
    by blast
  from f5(2) have k5: "c5 ! j = DescriptionCall (Suspended (AwaitingTimer 2))"
    using resume_description_throttled [OF e2, of j 2 s5] by (simp add: k4 fst_def split: prod.splits)
  from others_keep_call [OF f5(3) f5(1) f5(4)] k5
  have k6: "ca ! j = DescriptionCall (Suspended (AwaitingTimer 2))" "j < length ca" by simp_all
  from step_own [OF _ k6(2) final]
  have "(cs' ! j, s') = resume (TimerFires j) (ca ! j) sa" "length cs' = length ca" by simp_all
  then have "cs' ! j = DescriptionCall (Settled (Inr Undefined))" "cachedDescription s' = Some Undefined"
    "j < length cs'"
    using k6 by (simp_all add: resume_description_timer del: resume.simps)
  then show ?thesis by (simp add: j_def)
qed

text \<open>Schedules on the new object, evaluated.\<close>

lemma new_oracle_calls: "calls_of req new_oracle = 0"
  by (simp add: calls_of_def new_oracle_trace)

lemmas overlap_eval = getDecimals_begin_def getDecimals_reply_def getDecimals_timer_def
  getDescription_begin_def getDescription_reply_def getDescription_timer_def
  next_attempt_def on_reply_def on_timer_def store_decimals_def store_description_def
  kept_simps new_oracle_fields new_oracle_calls warm_oracle_fields rate_limited_transient

text \<open>
  Claim C7, as the code has it. A get call that begins while the key holds a cached value
  returns that value at once and leaves the object as it was, so it makes no request. When
  moreover no call is suspended in a fetch of that key, then after any schedule of
  overlapping get calls, replies, timers and steps of the other methods the key still holds
  that value, the number of requests made for it is what it was, no call is suspended in a
  fetch of it, and every get call for it that began in the schedule has returned that
  value. (A call that is suspended in a fetch of the key when the value is stored is not
  covered: it writes its own result when its fetch resolves, as the counterexample shows.)
\<close>

theorem cached_value_served_without_fetch:
  "(cachedDecimals s = Some v \<longrightarrow>
      getDecimals env s = (Inr v, s) \<and> getDecimals_begin s = (Settled (Inr v), s)
      \<and> (decimals_idle cs \<and> overlap_run es (s, cs) = (s', cs') \<longrightarrow>
            cachedDecimals s' = Some v \<and> calls_of Decimals s' = calls_of Decimals s
            \<and> decimals_idle cs'
            \<and> (\<forall>k. length cs \<le> k \<and> k < length cs' \<longrightarrow>
                  (\<forall>p. cs' ! k = DecimalsCall p \<longrightarrow> p = Settled (Inr v)))))
   \<and> (cachedDescription s = Some w \<longrightarrow>
      getDescription env s = (Inr w, s) \<and> getDescription_begin s = (Settled (Inr w), s)
      \<and> (description_idle cs \<and> overlap_run es (s, cs) = (s', cs') \<longrightarrow>
            cachedDescription s' = Some w \<and> calls_of Description s' = calls_of Description s
            \<and> description_idle cs'
            \<and> (\<forall>k. length cs \<le> k \<and> k < length cs' \<longrightarrow>
                  (\<forall>p. cs' ! k = DescriptionCall p \<longrightarrow> p = Settled (Inr w)))))"
  using decimals_kept_once_idle [of s v cs es s' cs'] description_kept_once_idle [of s w cs es s' cs']
  by (simp add: getDecimals_hit getDescription_hit getDecimals_begin_hit getDescription_begin_hit)

theorem cached_value_served_without_fetch_witness:
  "cachedDecimals warm_oracle = Some (Val 6)
   \<and> cachedDescription warm_oracle = Some (Val ''NGN / USD'')
   \<and> decimals_idle [] \<and> description_idle []
   \<and> overlap_run [CallGetDecimals, Elsewhere Rotate, CallGetDescription,
                  Elsewhere ReadLatestAnswer, CallGetDecimals] (warm_oracle, [])
       = (record_call LatestAnswer (rotateRPC warm_oracle),
          [DecimalsCall (Settled (Inr (Val 6))), DescriptionCall (Settled (Inr (Val ''NGN / USD''))),
           DecimalsCall (Settled (Inr (Val 6)))])
   \<and> getDecimals healthy_env warm_oracle = (Inr (Val 6), warm_oracle)
   \<and> getDecimals_begin warm_oracle = (Settled (Inr (Val 6)), warm_oracle)
   \<and> cachedDecimals (record_call LatestAnswer (rotateRPC warm_oracle)) = Some (Val 6)
   \<and> calls_of Decimals (record_call LatestAnswer (rotateRPC warm_oracle))
       = calls_of Decimals warm_oracle
   \<and> getDescription healthy_env warm_oracle = (Inr (Val ''NGN / USD''), warm_oracle)
   \<and> getDescription_begin warm_oracle = (Settled (Inr (Val ''NGN / USD'')), warm_oracle)
   \<and> cachedDescription (record_call LatestAnswer (rotateRPC warm_oracle)) = Some (Val ''NGN / USD'')
   \<and> calls_of Description (record_call LatestAnswer (rotateRPC warm_oracle))
       = calls_of Description warm_oracle"
proof -
  have d: "cachedDecimals warm_oracle = Some (Val 6)"
    and n: "cachedDescription warm_oracle = Some (Val ''NGN / USD'')"
    by (simp_all add: warm_oracle_fields)
  have i: "decimals_idle []" "description_idle []"
    by (simp_all add: decimals_idle_def description_idle_def)
  have run: "overlap_run [CallGetDecimals, Elsewhere Rotate, CallGetDescription,
                  Elsewhere ReadLatestAnswer, CallGetDecimals] (warm_oracle, [])
       = (record_call LatestAnswer (rotateRPC warm_oracle),
          [DecimalsCall (Settled (Inr (Val 6))), DescriptionCall (Settled (Inr (Val ''NGN / USD''))),
           DecimalsCall (Settled (Inr (Val 6)))])"
    by (simp add: overlap_eval)
  note life = cached_value_served_without_fetch [of warm_oracle "Val 6" healthy_env "[]"
      "[CallGetDecimals, Elsewhere Rotate, CallGetDescription, Elsewhere ReadLatestAnswer,
        CallGetDecimals]"
      "record_call LatestAnswer (rotateRPC warm_oracle)"
      "[DecimalsCall (Settled (Inr (Val 6))), DescriptionCall (Settled (Inr (Val ''NGN / USD''))),
        DecimalsCall (Settled (Inr (Val 6)))]"
      "Val ''NGN / USD''"]
  from life d n i run show ?thesis by blast
qed

text \<open>
  Two calls for decimals that overlap on the empty cache of the new object. Both send a
  request. The reply to the first stores 6, after two requests. The second call then meets
  a rate limit three times: it sends two more requests and stores \<open>undefined\<close> over the 6,
  and the next get call returns \<open>undefined\<close>.
\<close>

theorem overlapping_gets_fetch_twice:
  "cachedDecimals (fst (overlap_run
      [CallGetDecimals, CallGetDecimals, DecimalsReply 0 (Inr 6)] (new_oracle, []))) = Some (Val 6)
   \<and> calls_of Decimals (fst (overlap_run
      [CallGetDecimals, CallGetDecimals, DecimalsReply 0 (Inr 6)] (new_oracle, []))) = 2
   \<and> cachedDecimals (fst (overlap_run
      [CallGetDecimals, CallGetDecimals, DecimalsReply 0 (Inr 6),
       DecimalsReply 1 (Inl rate_limited), TimerFires 1,
       DecimalsReply 1 (Inl rate_limited), TimerFires 1,
       DecimalsReply 1 (Inl rate_limited), TimerFires 1, CallGetDecimals] (new_oracle, [])))
     = Some Undefined
   \<and> calls_of Decimals (fst (overlap_run
      [CallGetDecimals, CallGetDecimals, DecimalsReply 0 (Inr 6),
       DecimalsReply 1 (Inl rate_limited), TimerFires 1,
       DecimalsReply 1 (Inl rate_limited), TimerFires 1,
       DecimalsReply 1 (Inl rate_limited), TimerFires 1, CallGetDecimals] (new_oracle, []))) = 4
   \<and> snd (overlap_run
      [CallGetDecimals, CallGetDecimals, DecimalsReply 0 (Inr 6),
       DecimalsReply 1 (Inl rate_limited), TimerFires 1,
       DecimalsReply 1 (Inl rate_limited), TimerFires 1,
       DecimalsReply 1 (Inl rate_limited), TimerFires 1, CallGetDecimals] (new_oracle, []))
     = [DecimalsCall (Settled (Inr (Val 6))), DecimalsCall (Settled (Inr Undefined)),
        DecimalsCall (Settled (Inr Undefined))]"
  by (simp add: overlap_eval)

text \<open>
  Claim C10, as the code has it. A get call begins on an empty cache field and each of its
  three requests is answered with a transient error, while any other events take place in
  between. When its third wait ends the call is resolved with \<open>undefined\<close>, not rejected,
  and \<open>undefined\<close> is in the cache. When no other call is suspended in a fetch of that key
  at that moment, then after any further schedule the cache still holds \<open>undefined\<close>, no
  further request for the key has been made, and every get call for it that began in the
  schedule has returned \<open>undefined\<close>. (A call that began on the empty cache as well and is
  still suspended writes its own result later, as the counterexample shows.)
\<close>

theorem transient_failure_caches_undefined:
  "(cachedDecimals s = None
      \<and> (isRateLimit e0 \<or> isFilterError e0) \<and> (isRateLimit e1 \<or> isFilterError e1)
      \<and> (isRateLimit e2 \<or> isFilterError e2)
      \<and> inputs_to (length cs) es =
          [DecimalsReply (length cs) (Inl e0), TimerFires (length cs),
           DecimalsReply (length cs) (Inl e1), TimerFires (length cs),
           DecimalsReply (length cs) (Inl e2)]
      \<and> overlap_run (CallGetDecimals # es @ [TimerFires (length cs)]) (s, cs) = (s1, cs1)
    \<longrightarrow> cs1 ! length cs = DecimalsCall (Settled (Inr Undefined))
      \<and> cachedDecimals s1 = Some Undefined
      \<and> (decimals_idle cs1 \<and> overlap_run es' (s1, cs1) = (s2, cs2) \<longrightarrow>
            cachedDecimals s2 = Some Undefined \<and> calls_of Decimals s2 = calls_of Decimals s1
            \<and> (\<forall>k. length cs1 \<le> k \<and> k < length cs2 \<longrightarrow>
                  (\<forall>p. cs2 ! k = DecimalsCall p \<longrightarrow> p = Settled (Inr Undefined)))))
   \<and> (cachedDescription s = None
      \<and> (isRateLimit e0 \<or> isFilterError e0) \<and> (isRateLimit e1 \<or> isFilterError e1)
      \<and> (isRateLimit e2 \<or> isFilterError e2)
      \<and> inputs_to (length cs) fs =
          [DescriptionReply (length cs) (Inl e0), TimerFires (length cs),
           DescriptionReply (length cs) (Inl e1), TimerFires (length cs),
           DescriptionReply (length cs) (Inl e2)]
      \<and> overlap_run (CallGetDescription # fs @ [TimerFires (length cs)]) (s, cs) = (t1, ct1)
    \<longrightarrow> ct1 ! length cs = DescriptionCall (Settled (Inr Undefined))
      \<and> cachedDescription t1 = Some Undefined
      \<and> (description_idle ct1 \<and> overlap_run fs' (t1, ct1) = (t2, ct2) \<longrightarrow>
            cachedDescription t2 = Some Undefined \<and> calls_of Description t2 = calls_of Description t1
            \<and> (\<forall>k. length ct1 \<le> k \<and> k < length ct2 \<longrightarrow>
                  (\<forall>p. ct2 ! k = DescriptionCall p \<longrightarrow> p = Settled (Inr Undefined)))))"
proof (intro conjI impI; elim conjE)
  assume cold: "cachedDecimals s = None"
    and tr: "isRateLimit e0 \<or> isFilterError e0" "isRateLimit e1 \<or> isFilterError e1"
      "isRateLimit e2 \<or> isFilterError e2"
    and own: "inputs_to (length cs) es =
          [DecimalsReply (length cs) (Inl e0), TimerFires (length cs),
           DecimalsReply (length cs) (Inl e1), TimerFires (length cs),
           DecimalsReply (length cs) (Inl e2)]"
    and run: "overlap_run (CallGetDecimals # es @ [TimerFires (length cs)]) (s, cs) = (s1, cs1)"
  note stored = throttled_decimals_call [OF cold tr own run]
  from stored show "cs1 ! length cs = DecimalsCall (Settled (Inr Undefined))" by simp
  from stored show "cachedDecimals s1 = Some Undefined" by simp
  assume "decimals_idle cs1" and "overlap_run es' (s1, cs1) = (s2, cs2)"
  with stored decimals_kept_once_idle [of s1 Undefined cs1 es' s2 cs2]
  show "cachedDecimals s2 = Some Undefined" "calls_of Decimals s2 = calls_of Decimals s1"
    "\<forall>k. length cs1 \<le> k \<and> k < length cs2 \<longrightarrow>
        (\<forall>p. cs2 ! k = DecimalsCall p \<longrightarrow> p = Settled (Inr Undefined))"
    by simp_all
next
  assume cold: "cachedDescription s = None"
    and tr: "isRateLimit e0 \<or> isFilterError e0" "isRateLimit e1 \<or> isFilterError e1"
      "isRateLimit e2 \<or> isFilterError e2"
    and own: "inputs_to (length cs) fs =
          [DescriptionReply (length cs) (Inl e0), TimerFires (length cs),
           DescriptionReply (length cs) (Inl e1), TimerFires (length cs),
           DescriptionReply (length cs) (Inl e2)]"
    and run: "overlap_run (CallGetDescription # fs @ [TimerFires (length cs)]) (s, cs) = (t1, ct1)"
  note stored = throttled_description_call [OF cold tr own run]
  from stored show "ct1 ! length cs = DescriptionCall (Settled (Inr Undefined))" by simp
  from stored show "cachedDescription t1 = Some Undefined" by simp
  assume "description_idle ct1" and "overlap_run fs' (t1, ct1) = (t2, ct2)"
  with stored description_kept_once_idle [of t1 Undefined ct1 fs' t2 ct2]
  show "cachedDescription t2 = Some Undefined" "calls_of Description t2 = calls_of Description t1"
    "\<forall>k. length ct1 \<le> k \<and> k < length ct2 \<longrightarrow>
        (\<forall>p. ct2 ! k = DescriptionCall p \<longrightarrow> p = Settled (Inr Undefined))"
    by simp_all
qed

theorem transient_failure_caches_undefined_witness:
  "cachedDecimals new_oracle = None \<and> cachedDescription new_oracle = None
   \<and> (isRateLimit rate_limited \<or> isFilterError rate_limited)
   \<and> inputs_to 0
        [DecimalsReply 0 (Inl rate_limited), Elsewhere ReadBlockNumber, TimerFires 0,
         DecimalsReply 0 (Inl rate_limited), TimerFires 0, DecimalsReply 0 (Inl rate_limited)]
       = [DecimalsReply 0 (Inl rate_limited), TimerFires 0,
          DecimalsReply 0 (Inl rate_limited), TimerFires 0, DecimalsReply 0 (Inl rate_limited)]
   \<and> snd (overlap_run
        [CallGetDecimals, DecimalsReply 0 (Inl rate_limited), Elsewhere ReadBlockNumber, TimerFires 0,
         DecimalsReply 0 (Inl rate_limited), TimerFires 0, DecimalsReply 0 (Inl rate_limited),
         TimerFires 0] (new_oracle, []))
       = [DecimalsCall (Settled (Inr Undefined))]
   \<and> cachedDecimals (fst (overlap_run
        [CallGetDecimals, DecimalsReply 0 (Inl rate_limited), Elsewhere ReadBlockNumber, TimerFires 0,
         DecimalsReply 0 (Inl rate_limited), TimerFires 0, DecimalsReply 0 (Inl rate_limited),
         TimerFires 0] (new_oracle, [])))
       = Some Undefined
   \<and> decimals_idle [DecimalsCall (Settled (Inr Undefined))]
   \<and> snd (overlap_run [CallGetDecimals, DecimalsReply 0 (Inr 6), CallGetDecimals]
        (overlap_run
          [CallGetDecimals, DecimalsReply 0 (Inl rate_limited), Elsewhere ReadBlockNumber, TimerFires 0,
           DecimalsReply 0 (Inl rate_limited), TimerFires 0, DecimalsReply 0 (Inl rate_limited),
           TimerFires 0] (new_oracle, [])))
       = [DecimalsCall (Settled (Inr Undefined)), DecimalsCall (Settled (Inr Undefined)),
          DecimalsCall (Settled (Inr Undefined))]
   \<and> cachedDecimals (fst (overlap_run [CallGetDecimals, DecimalsReply 0 (Inr 6), CallGetDecimals]
        (overlap_run
          [CallGetDecimals, DecimalsReply 0 (Inl rate_limited), Elsewhere ReadBlockNumber, TimerFires 0,
           DecimalsReply 0 (Inl rate_limited), TimerFires 0, DecimalsReply 0 (Inl rate_limited),
           TimerFires 0] (new_oracle, []))))
       = Some Undefined
   \<and> calls_of Decimals (fst (overlap_run [CallGetDecimals, DecimalsReply 0 (Inr 6), CallGetDecimals]
        (overlap_run
          [CallGetDecimals, DecimalsReply 0 (Inl rate_limited), Elsewhere ReadBlockNumber, TimerFires 0,
           DecimalsReply 0 (Inl rate_limited), TimerFires 0, DecimalsReply 0 (Inl rate_limited),
           TimerFires 0] (new_oracle, []))))
       = 3
   \<and> inputs_to 0
        [DescriptionReply 0 (Inl rate_limited), TimerFires 0,
         DescriptionReply 0 (Inl rate_limited), TimerFires 0, DescriptionReply 0 (Inl rate_limited)]
       = [DescriptionReply 0 (Inl rate_limited), TimerFires 0,
          DescriptionReply 0 (Inl rate_limited), TimerFires 0, DescriptionReply 0 (Inl rate_limited)]
   \<and> snd (overlap_run
        [CallGetDescription, DescriptionReply 0 (Inl rate_limited), TimerFires 0,
         DescriptionReply 0 (Inl rate_limited), TimerFires 0, DescriptionReply 0 (Inl rate_limited),
         TimerFires 0] (new_oracle, []))
       = [DescriptionCall (Settled (Inr Undefined))]
   \<and> cachedDescription (fst (overlap_run
        [CallGetDescription, DescriptionReply 0 (Inl rate_limited), TimerFires 0,
         DescriptionReply 0 (Inl rate_limited), TimerFires 0, DescriptionReply 0 (Inl rate_limited),
         TimerFires 0] (new_oracle, [])))
       = Some Undefined
   \<and> description_idle [DescriptionCall (Settled (Inr Undefined))]
   \<and> snd (overlap_run [CallGetDescription]
        (overlap_run
          [CallGetDescription, DescriptionReply 0 (Inl rate_limited), TimerFires 0,
           DescriptionReply 0 (Inl rate_limited), TimerFires 0, DescriptionReply 0 (Inl rate_limited),
           TimerFires 0] (new_oracle, [])))
       = [DescriptionCall (Settled (Inr Undefined)), DescriptionCall (Settled (Inr Undefined))]
   \<and> calls_of Description (fst (overlap_run [CallGetDescription]
        (overlap_run
          [CallGetDescription, DescriptionReply 0 (Inl rate_limited), TimerFires 0,
           DescriptionReply 0 (Inl rate_limited), TimerFires 0, DescriptionReply 0 (Inl rate_limited),
           TimerFires 0] (new_oracle, []))))
       = 3"
proof -
  define es where "es = [DecimalsReply 0 (Inl rate_limited), Elsewhere ReadBlockNumber, TimerFires 0,
      DecimalsReply 0 (Inl rate_limited), TimerFires 0, DecimalsReply 0 (Inl rate_limited)]"
  define fs where "fs = [DescriptionReply 0 (Inl rate_limited), TimerFires 0,
      DescriptionReply 0 (Inl rate_limited), TimerFires 0, DescriptionReply 0 (Inl rate_limited)]"
  define x where "x = overlap_run (CallGetDecimals # es @ [TimerFires 0]) (new_oracle, [])"
  define y where "y = overlap_run (CallGetDescription # fs @ [TimerFires 0]) (new_oracle, [])"
  define es' where "es' = [CallGetDecimals, DecimalsReply 0 (Inr 6), CallGetDecimals]"
  define fs' where "fs' = [CallGetDescription]"
  have cold: "cachedDecimals new_oracle = None" "cachedDescription new_oracle = None"
    by (simp_all add: new_oracle_fields)
  have tr: "isRateLimit rate_limited \<or> isFilterError rate_limited"
    by (simp add: rate_limited_transient)
  have own: "inputs_to (length ([] :: get_call list)) es =
      [DecimalsReply (length ([] :: get_call list)) (Inl rate_limited), TimerFires (length ([] :: get_call list)),
       DecimalsReply (length ([] :: get_call list)) (Inl rate_limited), TimerFires (length ([] :: get_call list)),
       DecimalsReply (length ([] :: get_call list)) (Inl rate_limited)]"
    "inputs_to (length ([] :: get_call list)) fs =
      [DescriptionReply (length ([] :: get_call list)) (Inl rate_limited), TimerFires (length ([] :: get_call list)),
       DescriptionReply (length ([] :: get_call list)) (Inl rate_limited), TimerFires (length ([] :: get_call list)),
       DescriptionReply (length ([] :: get_call list)) (Inl rate_limited)]"
    by (simp_all add: inputs_to_def es_def fs_def)
  have xs: "snd x = [DecimalsCall (Settled (Inr Undefined))]"
    and ys: "snd y = [DescriptionCall (Settled (Inr Undefined))]"
    by (simp_all add: x_def y_def es_def fs_def overlap_eval)
  have idle: "decimals_idle (snd x)" "description_idle (snd y)"
    by (simp_all add: xs ys decimals_idle_def description_idle_def)
  have x2: "snd (overlap_run es' x) = [DecimalsCall (Settled (Inr Undefined)),
      DecimalsCall (Settled (Inr Undefined)), DecimalsCall (Settled (Inr Undefined))]"
    and xc: "calls_of Decimals (fst (overlap_run es' x)) = 3"
    by (simp_all add: x_def es_def es'_def overlap_eval)
  have y2: "snd (overlap_run fs' y) = [DescriptionCall (Settled (Inr Undefined)),
      DescriptionCall (Settled (Inr Undefined))]"
    and yc: "calls_of Description (fst (overlap_run fs' y)) = 3"
    by (simp_all add: y_def fs_def fs'_def overlap_eval)
  note t = transient_failure_caches_undefined [of new_oracle rate_limited rate_limited rate_limited
      "[]" es "fst x" "snd x" es' "fst (overlap_run es' x)" "snd (overlap_run es' x)"
      fs "fst y" "snd y" fs' "fst (overlap_run fs' y)" "snd (overlap_run fs' y)"]
  have runs: "overlap_run (CallGetDecimals # es @ [TimerFires (length ([] :: get_call list))]) (new_oracle, [])
      = (fst x, snd x)"
    "overlap_run (CallGetDescription # fs @ [TimerFires (length ([] :: get_call list))]) (new_oracle, [])
      = (fst y, snd y)"
    "overlap_run es' (fst x, snd x) = (fst (overlap_run es' x), snd (overlap_run es' x))"
    "overlap_run fs' (fst y, snd y) = (fst (overlap_run fs' y), snd (overlap_run fs' y))"
    by (simp_all add: x_def y_def)
  from t cold tr own runs idle
  have "cachedDecimals (fst x) = Some Undefined \<and> cachedDecimals (fst (overlap_run es' x)) = Some Undefined
      \<and> cachedDescription (fst y) = Some Undefined"
    by blast
  with cold tr own xs ys idle x2 xc y2 yc show ?thesis
    unfolding x_def y_def es_def fs_def es'_def fs'_def by simp
qed

text \<open>
  Two calls for decimals overlap on the empty cache of the new object. Every request of the
  first meets a rate limit, so \<open>undefined\<close> is stored. The reply to the second, which is
  still suspended, then stores 6, and the next get call returns 6.
\<close>

theorem overlapping_get_replaces_undefined:
  "cachedDecimals (fst (overlap_run
      [CallGetDecimals, CallGetDecimals,
       DecimalsReply 0 (Inl rate_limited), TimerFires 0,
       DecimalsReply 0 (Inl rate_limited), TimerFires 0,
       DecimalsReply 0 (Inl rate_limited), TimerFires 0] (new_oracle, []))) = Some Undefined
   \<and> snd (overlap_run
      [CallGetDecimals, CallGetDecimals,
       DecimalsReply 0 (Inl rate_limited), TimerFires 0,
       DecimalsReply 0 (Inl rate_limited), TimerFires 0,
       DecimalsReply 0 (Inl rate_limited), TimerFires 0] (new_oracle, []))
     = [DecimalsCall (Settled (Inr Undefined)), DecimalsCall (Suspended (AwaitingReply 0))]
   \<and> cachedDecimals (fst (overlap_run
      [CallGetDecimals, CallGetDecimals,
       DecimalsReply 0 (Inl rate_limited), TimerFires 0,
       DecimalsReply 0 (Inl rate_limited), TimerFires 0,
       DecimalsReply 0 (Inl rate_limited), TimerFires 0,
       DecimalsReply 1 (Inr 6), CallGetDecimals] (new_oracle, []))) = Some (Val 6)
   \<and> snd (overlap_run
      [CallGetDecimals, CallGetDecimals,
       DecimalsReply 0 (Inl rate_limited), TimerFires 0,
       DecimalsReply 0 (Inl rate_limited), TimerFires 0,
       DecimalsReply 0 (Inl rate_limited), TimerFires 0,
       DecimalsReply 1 (Inr 6), CallGetDecimals] (new_oracle, []))
     = [DecimalsCall (Settled (Inr Undefined)), DecimalsCall (Settled (Inr (Val 6))),
        DecimalsCall (Settled (Inr (Val 6)))]"
  by (simp add: overlap_eval)

section \<open>Errors that are not transient\<close>

text \<open>A call refused with the same error at every endpoint and time is made \<open>retries\<close> times and then rejects.\<close>

lemma ewr_refused_from:
  fixes rpc :: "string option \<Rightarrow> nat \<Rightarrow> js_error + 'a"
  assumes all: "\<forall>ep t. rpc ep t = Inl err" and nt: "\<not> (isRateLimit err \<or> isFilterError err)"
  shows "i < retries \<Longrightarrow>
     executeWithRetry_from i (contract_call req rpc) retries s
       = (Inl err, (record_call req ^^ (retries - i)) s)"
proof (induction "retries - i" arbitrary: i s)
  case 0
  then show ?case by simp
next
  case (Suc n)
  have f: "contract_call req rpc s = (Inl err, record_call req s)"
    by (simp add: contract_call_def all)
  show ?case
  proof (cases "i = retries - 1")
    case True
    then have "retries - i = 1" using Suc.prems by simp
    then show ?thesis
      using ewr_other_last [of i retries "contract_call req rpc" s err "record_call req s"]
        Suc.prems f nt True by simp
  next
    case False
    then have lt: "i + 1 < retries" using Suc.prems by simp
    have n: "n = retries - (i + 1)" using Suc.hyps(2) by simp
    have cnt: "retries - i = Suc (retries - (i + 1))" using Suc.prems by simp
    have "executeWithRetry_from i (contract_call req rpc) retries s
        = executeWithRetry_from (i + 1) (contract_call req rpc) retries (record_call req s)"
      using ewr_other_again [of i retries "contract_call req rpc" s err "record_call req s"]
        Suc.prems f nt False by simp
    also have "\<dots> = (Inl err, (record_call req ^^ (retries - (i + 1))) (record_call req s))"
      by (rule Suc.hyps(1) [OF n lt])
    finally show ?thesis
      by (simp only: cnt funpow_Suc_right o_apply)
  qed
qed

lemma ewr_call_refused:
  fixes rpc :: "string option \<Rightarrow> nat \<Rightarrow> js_error + 'a"
  assumes all: "\<forall>ep t. rpc ep t = Inl err" and nt: "\<not> (isRateLimit err \<or> isFilterError err)"
  shows "executeWithRetry (contract_call req rpc) 3 s
       = (Inl err, record_call req (record_call req (record_call req s)))"
  using ewr_refused_from [OF all nt, of 0 3 req s]
  by (simp add: executeWithRetry_def numeral_3_eq_3)

section \<open>The errors of the quotes\<close>

text \<open>
  What the two quote methods return when their reads have settled: the record, whatever the
  values read are, or the error of \<open>latestAnswer\<close>.
\<close>

lemma getCurrentPrice_refused:
  assumes "getDecimals env s = (Inr decimals, s1)"
    and "getDescription env s1 = (Inr description, s2)"
    and "executeWithRetry (contract_call LatestAnswer (rpc_latestAnswer env)) 3 s2 = (Inl err, s3)"
  shows "getCurrentPrice env s = (Inl err, console_error ''Error fetching current price:'' err s3)"
  using assms by (simp add: getCurrentPrice_def)

lemma getCurrentPrice_resolved:
  assumes "getDecimals env s = (Inr decimals, s1)"
    and "getDescription env s1 = (Inr description, s2)"
    and "executeWithRetry (contract_call LatestAnswer (rpc_latestAnswer env)) 3 s2 = (Inr answer, s3)"
  shows "getCurrentPrice env s =
    (Inr \<lparr>p_ngnToUsd = js_div (Number_signed answer) (Math_pow10 decimals),
          p_usdToNgn = js_div (Fin 1 0) (js_div (Number_signed answer) (Math_pow10 decimals)),
          p_decimals = decimals, p_description = description,
          p_formattedPrice = formatted_price env
             (js_div (Fin 1 0) (js_div (Number_signed answer) (Math_pow10 decimals))),
          p_reversePrice = reverse_price env (js_div (Number_signed answer) (Math_pow10 decimals)),
          p_timestamp = date_now env (clock s3)\<rparr>,
     s3)"
  using assms by (simp add: getCurrentPrice_def Let_def)

lemma getLatestRoundData_resolved:
  assumes "getDecimals env s = (Inr decimals, s1)"
    and "executeWithRetry (contract_call LatestRoundData (rpc_latestRoundData env)) 3 s1
      = (Inr (Val rd), s2)"
    and "date_of_seconds env (Number_unsigned (rd_updatedAt rd)) = Inr stamp"
  shows "getLatestRoundData env s =
    (Inr \<lparr>r_roundId = digits (unat (rd_roundId rd)),
          r_answer = Number_signed (Val (rd_answer rd)),
          r_ngnToUsd = js_div (Number_signed (Val (rd_answer rd))) (Math_pow10 decimals),
          r_usdToNgn = js_div (Fin 1 0) (js_div (Number_signed (Val (rd_answer rd))) (Math_pow10 decimals)),
          r_formattedPrice = formatted_price env
             (js_div (Fin 1 0) (js_div (Number_signed (Val (rd_answer rd))) (Math_pow10 decimals))),
          r_reversePrice = reverse_price env
             (js_div (Number_signed (Val (rd_answer rd))) (Math_pow10 decimals)),
          r_startedAt = Number_unsigned (rd_startedAt rd),
          r_updatedAt = Number_unsigned (rd_updatedAt rd),
          r_answeredInRound = digits (unat (rd_answeredInRound rd)),
          r_updatedAtFormatted = stamp\<rparr>,
     s2)"
  using assms by (simp add: getLatestRoundData_def Let_def)

text \<open>The two rates, for a number of decimals and a raw answer.\<close>

lemma quote_cases:
  "if x = 0
   then js_div (Number_signed (Val x)) (Math_pow10 (Val d)) = Fin 0 0
        \<and> js_div (Fin 1 0) (js_div (Number_signed (Val x)) (Math_pow10 (Val d))) = PosInf
   else \<exists>m e m' e'. js_div (Number_signed (Val x)) (Math_pow10 (Val d)) = Fin m e \<and> m \<noteq> 0
        \<and> js_div (Fin 1 0) (js_div (Number_signed (Val x)) (Math_pow10 (Val d))) = Fin m' e'
        \<and> m' \<noteq> 0"
proof (cases "x = 0")
  case True
  then show ?thesis by (simp add: quote_of_zero del: js_div.simps)
next
  case False
  from quote_of_nonzero [OF this, of d] False show ?thesis by auto
qed

text \<open>
  With \<open>undefined\<close> for the decimals (a fetch that was throttled at every attempt leaves it
  in the cache) the power is \<open>NaN\<close> and so are both rates; this is no error either.
\<close>

lemma undefined_decimals_give_NaN:
  assumes "getDecimals env s = (Inr Undefined, s1)"
    and "getDescription env s1 = (Inr description, s2)"
    and "executeWithRetry (contract_call LatestAnswer (rpc_latestAnswer env)) 3 s2 = (Inr answer, s3)"
  shows "\<exists>p. fst (getCurrentPrice env s) = Inr p \<and> p_ngnToUsd p = NaN \<and> p_usdToNgn p = NaN
       \<and> p_formattedPrice p = ''1 USD = NaN NGN''"
proof -
  have "js_div x (Math_pow10 Undefined) = NaN" for x
    by (cases x) (simp_all add: Math_pow10_def)
  then show ?thesis
    by (simp add: getCurrentPrice_resolved [OF assms] formatted_price_def toFixed_def)
qed

text \<open>
  Claim C4, as the code has it. Neither method has an arithmetic error, and a raw answer of
  zero is not an error. An error with which \<open>getCurrentPrice\<close> is rejected is the error of
  one of its three reads. An error with which \<open>getLatestRoundData\<close> is rejected is the error
  of one of its two reads, the error of converting the update time to a date, or the
  \<open>TypeError\<close> of reading the answer of a record that is \<open>undefined\<close>. When the reads are
  resolved with a number of decimals and a raw answer (and, for the round data, the update
  time converts to a date), the method returns a record: with the raw answer zero the
  inverse rate is 0, the direct rate is \<open>Infinity\<close> and the formatted price is
  ``1 USD = Infinity NGN''; with any other raw answer both rates are finite and not zero.
\<close>

theorem zero_answer_is_not_an_error:
  "(\<forall>env s err. fst (getCurrentPrice env s) = Inl err \<longrightarrow>
      (\<exists>ep t. rpc_decimals env ep t = Inl err) \<or> (\<exists>ep t. rpc_description env ep t = Inl err)
      \<or> (\<exists>ep t. rpc_latestAnswer env ep t = Inl err))
   \<and> (\<forall>env s err. fst (getLatestRoundData env s) = Inl err \<longrightarrow>
      (\<exists>ep t. rpc_decimals env ep t = Inl err) \<or> (\<exists>ep t. rpc_latestRoundData env ep t = Inl err)
      \<or> (\<exists>x. date_of_seconds env x = Inl err) \<or> err = TypeError ''answer'')
   \<and> (\<forall>env s d s1 description s2 a s3.
        getDecimals env s = (Inr (Val d), s1) \<and> getDescription env s1 = (Inr description, s2)
        \<and> executeWithRetry (contract_call LatestAnswer (rpc_latestAnswer env)) 3 s2 = (Inr (Val a), s3)
        \<longrightarrow> (\<exists>p. fst (getCurrentPrice env s) = Inr p \<and>
            (if a = 0
             then p_ngnToUsd p = Fin 0 0 \<and> p_usdToNgn p = PosInf
                  \<and> p_formattedPrice p = ''1 USD = Infinity NGN''
             else \<exists>m e m' e'. p_ngnToUsd p = Fin m e \<and> m \<noteq> 0
                  \<and> p_usdToNgn p = Fin m' e' \<and> m' \<noteq> 0)))
   \<and> (\<forall>env s d s1 rd s2 stamp.
        getDecimals env s = (Inr (Val d), s1)
        \<and> executeWithRetry (contract_call LatestRoundData (rpc_latestRoundData env)) 3 s1
            = (Inr (Val rd), s2)
        \<and> date_of_seconds env (Number_unsigned (rd_updatedAt rd)) = Inr stamp
        \<longrightarrow> (\<exists>r. fst (getLatestRoundData env s) = Inr r \<and>
            (if rd_answer rd = 0
             then r_ngnToUsd r = Fin 0 0 \<and> r_usdToNgn r = PosInf
                  \<and> r_formattedPrice r = ''1 USD = Infinity NGN''
             else \<exists>m e m' e'. r_ngnToUsd r = Fin m e \<and> m \<noteq> 0
                  \<and> r_usdToNgn r = Fin m' e' \<and> m' \<noteq> 0)))"
proof (intro conjI allI impI)
  fix env s err
  assume "fst (getCurrentPrice env s) = Inl err"
  then show "(\<exists>ep t. rpc_decimals env ep t = Inl err) \<or> (\<exists>ep t. rpc_description env ep t = Inl err)
      \<or> (\<exists>ep t. rpc_latestAnswer env ep t = Inl err)"
    by (rule getCurrentPrice_errors_are_remote)
next
  fix env s err
  assume "fst (getLatestRoundData env s) = Inl err"
  then show "(\<exists>ep t. rpc_decimals env ep t = Inl err) \<or> (\<exists>ep t. rpc_latestRoundData env ep t = Inl err)
      \<or> (\<exists>x. date_of_seconds env x = Inl err) \<or> err = TypeError ''answer''"
    by (rule getLatestRoundData_errors)
next
  fix env s d s1 description s2 a s3
  assume h: "getDecimals env s = (Inr (Val d), s1) \<and> getDescription env s1 = (Inr description, s2)
        \<and> executeWithRetry (contract_call LatestAnswer (rpc_latestAnswer env)) 3 s2 = (Inr (Val a), s3)"
  then have g: "getDecimals env s = (Inr (Val d), s1)" "getDescription env s1 = (Inr description, s2)"
    "executeWithRetry (contract_call LatestAnswer (rpc_latestAnswer env)) 3 s2 = (Inr (Val a), s3)"
    by simp_all
  show "\<exists>p. fst (getCurrentPrice env s) = Inr p \<and>
            (if a = 0
             then p_ngnToUsd p = Fin 0 0 \<and> p_usdToNgn p = PosInf
                  \<and> p_formattedPrice p = ''1 USD = Infinity NGN''
             else \<exists>m e m' e'. p_ngnToUsd p = Fin m e \<and> m \<noteq> 0
                  \<and> p_usdToNgn p = Fin m' e' \<and> m' \<noteq> 0)"
    using quote_cases [of a d]
    by (simp add: getCurrentPrice_resolved [OF g] example_strings quote_of_zero
        del: js_div.simps split: if_splits)
next
  fix env s d s1 rd s2 stamp
  assume h: "getDecimals env s = (Inr (Val d), s1)
        \<and> executeWithRetry (contract_call LatestRoundData (rpc_latestRoundData env)) 3 s1
            = (Inr (Val rd), s2)
        \<and> date_of_seconds env (Number_unsigned (rd_updatedAt rd)) = Inr stamp"
  then have g: "getDecimals env s = (Inr (Val d), s1)"
    "executeWithRetry (contract_call LatestRoundData (rpc_latestRoundData env)) 3 s1 = (Inr (Val rd), s2)"
    "date_of_seconds env (Number_unsigned (rd_updatedAt rd)) = Inr stamp"
    by simp_all
  show "\<exists>r. fst (getLatestRoundData env s) = Inr r \<and>
            (if rd_answer rd = 0
             then r_ngnToUsd r = Fin 0 0 \<and> r_usdToNgn r = PosInf
                  \<and> r_formattedPrice r = ''1 USD = Infinity NGN''
             else \<exists>m e m' e'. r_ngnToUsd r = Fin m e \<and> m \<noteq> 0
                  \<and> r_usdToNgn r = Fin m' e' \<and> m' \<noteq> 0)"
    using quote_cases [of "rd_answer rd" d]
    by (simp add: getLatestRoundData_resolved [OF g] example_strings quote_of_zero
        del: js_div.simps split: if_splits)
qed

text \<open>
  A price read that is refused, a round whose update time does not convert to a date, a
  raw answer of zero in both methods, and the raw answer 689.
\<close>

lemma refused_price:
  "fst (getCurrentPrice unreachable_env new_oracle) = Inl unreachable"
proof -
  have d: "getDecimals unreachable_env new_oracle = (Inr (Val 6), first_fetch)"
    and n: "getDescription unreachable_env first_fetch = (Inr (Val ''NGN / USD''), warm_oracle)"
    by (simp_all add: cold_start unreachable_env_def)
  have a: "executeWithRetry (contract_call LatestAnswer (rpc_latestAnswer unreachable_env)) 3 warm_oracle
      = (Inl unreachable,
         record_call LatestAnswer (record_call LatestAnswer (record_call LatestAnswer warm_oracle)))"
    by (rule ewr_call_refused) (simp_all add: unreachable_env_def unreachable_not_transient)
  show ?thesis by (simp add: getCurrentPrice_refused [OF d n a])
qed

lemma undated_round:
  "fst (getLatestRoundData undated_env new_oracle) = Inl invalid_time"
proof -
  have d: "getDecimals undated_env new_oracle = (Inr (Val 6), first_fetch)"
    by (simp add: cold_start undated_env_def)
  have r: "executeWithRetry (contract_call LatestRoundData (rpc_latestRoundData undated_env)) 3 first_fetch
      = (Inr (Val example_round), record_call LatestRoundData first_fetch)"
    by (rule ewr_call_ok) (simp_all add: undated_env_def healthy_env_def)
  have t: "date_of_seconds undated_env x = Inl invalid_time" for x
    by (simp add: undated_env_def)
  show ?thesis by (simp add: getLatestRoundData_def d r t Let_def)
qed

theorem zero_answer_is_not_an_error_witness:
  "fst (getCurrentPrice unreachable_env new_oracle) = Inl unreachable
   \<and> ((\<exists>ep t. rpc_decimals unreachable_env ep t = Inl unreachable)
      \<or> (\<exists>ep t. rpc_description unreachable_env ep t = Inl unreachable)
      \<or> (\<exists>ep t. rpc_latestAnswer unreachable_env ep t = Inl unreachable))
   \<and> fst (getLatestRoundData undated_env new_oracle) = Inl invalid_time
   \<and> ((\<exists>ep t. rpc_decimals undated_env ep t = Inl invalid_time)
      \<or> (\<exists>ep t. rpc_latestRoundData undated_env ep t = Inl invalid_time)
      \<or> (\<exists>x. date_of_seconds undated_env x = Inl invalid_time)
      \<or> invalid_time = TypeError ''answer'')
   \<and> getDecimals zero_answer_env new_oracle = (Inr (Val 6), first_fetch)
   \<and> getDescription zero_answer_env first_fetch = (Inr (Val ''NGN / USD''), warm_oracle)
   \<and> executeWithRetry (contract_call LatestAnswer (rpc_latestAnswer zero_answer_env)) 3 warm_oracle
       = (Inr (Val 0), record_call LatestAnswer warm_oracle)
   \<and> (\<exists>p. fst (getCurrentPrice zero_answer_env new_oracle) = Inr p
         \<and> p_ngnToUsd p = Fin 0 0 \<and> p_usdToNgn p = PosInf
         \<and> p_formattedPrice p = ''1 USD = Infinity NGN'')
   \<and> executeWithRetry (contract_call LatestRoundData (rpc_latestRoundData zero_answer_env)) 3 first_fetch
       = (Inr (Val (example_round\<lparr>rd_answer := 0\<rparr>)), record_call LatestRoundData first_fetch)
   \<and> date_of_seconds zero_answer_env (Number_unsigned (rd_updatedAt (example_round\<lparr>rd_answer := 0\<rparr>)))
       = Inr ''2023-11-14T22:13:20.000Z''
   \<and> (\<exists>r. fst (getLatestRoundData zero_answer_env new_oracle) = Inr r
         \<and> r_ngnToUsd r = Fin 0 0 \<and> r_usdToNgn r = PosInf
         \<and> r_formattedPrice r = ''1 USD = Infinity NGN'')
   \<and> getDecimals healthy_env new_oracle = (Inr (Val 6), first_fetch)
   \<and> getDescription healthy_env first_fetch = (Inr (Val ''NGN / USD''), warm_oracle)
   \<and> executeWithRetry (contract_call LatestAnswer (rpc_latestAnswer healthy_env)) 3 warm_oracle
       = (Inr (Val 689), record_call LatestAnswer warm_oracle)
   \<and> (\<exists>p m e m' e'. fst (getCurrentPrice healthy_env new_oracle) = Inr p
         \<and> p_ngnToUsd p = Fin m e \<and> m \<noteq> 0 \<and> p_usdToNgn p = Fin m' e' \<and> m' \<noteq> 0)"
proof -
  note errors_price = zero_answer_is_not_an_error [THEN conjunct1, rule_format]
  note errors_round = zero_answer_is_not_an_error [THEN conjunct2, THEN conjunct1, rule_format]
  note price = zero_answer_is_not_an_error [THEN conjunct2, THEN conjunct2, THEN conjunct1, rule_format]
  note round = zero_answer_is_not_an_error [THEN conjunct2, THEN conjunct2, THEN conjunct2, rule_format]
  have d: "getDecimals zero_answer_env new_oracle = (Inr (Val 6), first_fetch)"
    and n: "getDescription zero_answer_env first_fetch = (Inr (Val ''NGN / USD''), warm_oracle)"
    by (simp_all add: cold_start zero_answer_env_def)
  have a: "executeWithRetry (contract_call LatestAnswer (rpc_latestAnswer zero_answer_env)) 3 warm_oracle
      = (Inr (Val 0), record_call LatestAnswer warm_oracle)"
    by (rule ewr_call_ok) (simp_all add: zero_answer_env_def)
  have r: "executeWithRetry (contract_call LatestRoundData (rpc_latestRoundData zero_answer_env)) 3
      first_fetch = (Inr (Val (example_round\<lparr>rd_answer := 0\<rparr>)), record_call LatestRoundData first_fetch)"
    by (rule ewr_call_ok) (simp_all add: zero_answer_env_def)
  have t: "date_of_seconds zero_answer_env
      (Number_unsigned (rd_updatedAt (example_round\<lparr>rd_answer := 0\<rparr>)))
      = Inr ''2023-11-14T22:13:20.000Z''"
    by (simp add: zero_answer_env_def healthy_env_def)
  have hd: "getDecimals healthy_env new_oracle = (Inr (Val 6), first_fetch)"
    and hn: "getDescription healthy_env first_fetch = (Inr (Val ''NGN / USD''), warm_oracle)"
    by (simp_all add: cold_start)
  have ha: "executeWithRetry (contract_call LatestAnswer (rpc_latestAnswer healthy_env)) 3 warm_oracle
      = (Inr (Val 689), record_call LatestAnswer warm_oracle)"
    by (rule ewr_call_ok) (simp_all add: healthy_env_def)
  have c1: "(\<exists>ep t. rpc_decimals unreachable_env ep t = Inl unreachable)
      \<or> (\<exists>ep t. rpc_description unreachable_env ep t = Inl unreachable)
      \<or> (\<exists>ep t. rpc_latestAnswer unreachable_env ep t = Inl unreachable)"
    by (rule errors_price [OF refused_price])
  have c2: "(\<exists>ep t. rpc_decimals undated_env ep t = Inl invalid_time)
      \<or> (\<exists>ep t. rpc_latestRoundData undated_env ep t = Inl invalid_time)
      \<or> (\<exists>x. date_of_seconds undated_env x = Inl invalid_time)
      \<or> invalid_time = TypeError ''answer''"
    by (rule errors_round [OF undated_round])
  have c3: "\<exists>p. fst (getCurrentPrice zero_answer_env new_oracle) = Inr p
         \<and> p_ngnToUsd p = Fin 0 0 \<and> p_usdToNgn p = PosInf
         \<and> p_formattedPrice p = ''1 USD = Infinity NGN''"
    using price [of zero_answer_env new_oracle 6 first_fetch "Val ''NGN / USD''" warm_oracle 0
        "record_call LatestAnswer warm_oracle"] d n a
    by simp
  have c4: "\<exists>r. fst (getLatestRoundData zero_answer_env new_oracle) = Inr r
         \<and> r_ngnToUsd r = Fin 0 0 \<and> r_usdToNgn r = PosInf
         \<and> r_formattedPrice r = ''1 USD = Infinity NGN''"
    using round [of zero_answer_env new_oracle 6 first_fetch "example_round\<lparr>rd_answer := 0\<rparr>"
        "record_call LatestRoundData first_fetch" "''2023-11-14T22:13:20.000Z''"] d r t
    by simp
  have c5: "\<exists>p m e m' e'. fst (getCurrentPrice healthy_env new_oracle) = Inr p
         \<and> p_ngnToUsd p = Fin m e \<and> m \<noteq> 0 \<and> p_usdToNgn p = Fin m' e' \<and> m' \<noteq> 0"
    using price [of healthy_env new_oracle 6 first_fetch "Val ''NGN / USD''" warm_oracle 689
        "record_call LatestAnswer warm_oracle"] hd hn ha
    by auto
  from refused_price c1 undated_round c2 d n a c3 r t c4 hd hn ha c5 show ?thesis
    by (intro conjI)
qed

text \<open>With the raw answer zero \<open>getCurrentPrice\<close> returns a record.\<close>

theorem zero_answer_counterexample:
  "fst (getCurrentPrice zero_answer_env new_oracle) =
     Inr \<lparr>p_ngnToUsd = Fin 0 0, p_usdToNgn = PosInf, p_decimals = Val 6,
          p_description = Val ''NGN / USD'',
          p_formattedPrice = ''1 USD = Infinity NGN'',
          p_reversePrice = ''1 NGN = 0.000000 USD'',
          p_timestamp = ''2025-01-01T00:00:00.000Z''\<rparr>"
proof -
  have d: "getDecimals zero_answer_env new_oracle = (Inr (Val 6), first_fetch)"
    and n: "getDescription zero_answer_env first_fetch = (Inr (Val ''NGN / USD''), warm_oracle)"
    by (simp_all add: cold_start zero_answer_env_def)
  have a: "rpc_latestAnswer zero_answer_env (c_provider (contract warm_oracle)) (clock warm_oracle)
      = Inr 0"
    by (simp add: zero_answer_env_def)
  have now: "date_now zero_answer_env t = ''2025-01-01T00:00:00.000Z''" for t
    by (simp add: zero_answer_env_def healthy_env_def)
  show ?thesis
    unfolding getCurrentPrice_ok [OF d n a]
    by (simp add: quote_of_zero example_strings now del: js_div.simps)
qed

section \<open>The monitor\<close>

lemma monitorInterval_effects:
  "monitorInterval (console_log m s) = monitorInterval s"
  "monitorInterval (console_error m e s) = monitorInterval s"
  "monitorInterval (console_error_message m x s) = monitorInterval s"
  "monitorInterval (s\<lparr>cachedDecimals := cd\<rparr>) = monitorInterval s"
  "monitorInterval (s\<lparr>cachedDescription := cs\<rparr>) = monitorInterval s"
  by (simp_all add: console_log_def console_error_def console_error_message_def)

lemma console_log_fields:
  "cachedDecimals (console_log m s) = cachedDecimals s"
  "cachedDescription (console_log m s) = cachedDescription s"
  "contract (console_log m s) = contract s"
  "provider (console_log m s) = provider s"
  "clock (console_log m s) = clock s"
  by (simp_all add: console_log_def)

text \<open>
  Claim C9, on the code: when the read of the latest answer is refused at every attempt,
  the first cycle of \<open>monitorPrice\<close>, which runs outside any \<open>try\<close>, rejects the call
  with that error and the timer is never installed.
\<close>

theorem first_poll_failure_rejects:
  "fst (monitorPrice unreachable_env 60000 new_oracle) = Inl unreachable
   \<and> monitorInterval (snd (monitorPrice unreachable_env 60000 new_oracle)) = None"
proof -
  define s0 where "s0 = console_log
      (''Starting price monitoring (interval: '' @ seconds_toString unreachable_env 60000 @ ''s)...'')
      new_oracle"
  define s1 where "s1 = (record_call Decimals s0)\<lparr>cachedDecimals := Some (Val 6)\<rparr>"
  define s2 where "s2 = (record_call Description s1)\<lparr>cachedDescription := Some (Val ''NGN / USD'')\<rparr>"
  define s3 where "s3 = record_call LatestAnswer (record_call LatestAnswer (record_call LatestAnswer s2))"
  have d: "getDecimals unreachable_env s0 = (Inr (Val 6), s1)"
    unfolding s1_def
    by (rule getDecimals_miss)
       (simp_all add: s0_def console_log_fields new_oracle_fields unreachable_env_def healthy_env_def)
  have n: "getDescription unreachable_env s1 = (Inr (Val ''NGN / USD''), s2)"
    unfolding s2_def
    by (rule getDescription_miss)
       (simp_all add: s1_def s0_def record_call_fields console_log_fields new_oracle_fields
          unreachable_env_def healthy_env_def)
  have a: "executeWithRetry (contract_call LatestAnswer (rpc_latestAnswer unreachable_env)) 3 s2
      = (Inl unreachable, s3)"
    unfolding s3_def
    by (rule ewr_call_refused) (simp_all add: unreachable_env_def unreachable_not_transient)
  have price: "getCurrentPrice unreachable_env s0
      = (Inl unreachable, console_error ''Error fetching current price:'' unreachable s3)"
    by (rule getCurrentPrice_refused [OF d n a])
  have m: "monitorInterval (console_error ''Error fetching current price:'' unreachable s3) = None"
    by (simp add: s3_def s2_def s1_def s0_def monitorInterval_effects record_call_fields
        new_oracle_fields)
  show ?thesis
    unfolding monitorPrice_def s0_def [symmetric] displayCurrentPrice_def price
    using m by simp
qed

text \<open>
  The same failure in a cycle run by the timer is caught there: the error is written to the
  console and the timer stays installed.
\<close>

lemma scheduled_poll_failure_is_caught:
  assumes d: "cachedDecimals s = Some decimals" and n: "cachedDescription s = Some description"
    and all: "\<forall>ep t. rpc_latestAnswer env ep t = Inl err"
    and nt: "\<not> (isRateLimit err \<or> isFilterError err)"
  shows "monitor_tick env s =
      console_error_message ''Error during price monitoring:'' (message err)
        (console_error ''Error fetching current price:'' err
          (record_call LatestAnswer (record_call LatestAnswer (record_call LatestAnswer s))))"
    and "monitorInterval (monitor_tick env s) = monitorInterval s"
proof -
  have price: "getCurrentPrice env s =
      (Inl err, console_error ''Error fetching current price:'' err
         (record_call LatestAnswer (record_call LatestAnswer (record_call LatestAnswer s))))"
    by (rule getCurrentPrice_refused [OF getDecimals_hit [OF d] getDescription_hit [OF n]
          ewr_call_refused [OF all nt]])
  show tick: "monitor_tick env s =
      console_error_message ''Error during price monitoring:'' (message err)
        (console_error ''Error fetching current price:'' err
          (record_call LatestAnswer (record_call LatestAnswer (record_call LatestAnswer s))))"
    by (simp add: monitor_tick_def displayCurrentPrice_def price)
  show "monitorInterval (monitor_tick env s) = monitorInterval s"
    unfolding tick by (simp add: monitorInterval_effects record_call_fields)
qed

section \<open>Historical queries\<close>

text \<open>The windows of the example, and the log queries that a run leaves in the trace.\<close>

lemma windows_120_50:
  "push_batches (head - 120) head 50 [] =
     Some [\<lparr>b_from = head - 120, b_to = head - 71\<rparr>, \<lparr>b_from = head - 70, b_to = head - 21\<rparr>,
           \<lparr>b_from = head - 20, b_to = head\<rparr>]"
  by (simp add: push_batches.simps)

text \<open>
  With a positive batch size the loop that fills \<open>batches\<close> ends, and the windows it adds
  lie one after the other from the loop's first block up to the head.
\<close>

lemma push_batches_partition:
  assumes "0 < batchSize"
  shows "\<exists>bs. push_batches i c batchSize acc = Some (acc @ bs) \<and> contiguous i bs c"
proof (induction "nat (c - i + 1)" arbitrary: i acc rule: less_induct)
  case less
  show ?case
  proof (cases "i \<le> c")
    case False
    then show ?thesis by (subst push_batches.simps) simp
  next
    case True
    have "nat (c - (i + batchSize) + 1) < nat (c - i + 1)"
      using True assms by simp
    from less [OF this, of "acc @ [\<lparr>b_from = i, b_to = min (i + batchSize - 1) c\<rparr>]"]
    obtain bs where bs: "push_batches (i + batchSize) c batchSize
          (acc @ [\<lparr>b_from = i, b_to = min (i + batchSize - 1) c\<rparr>])
        = Some ((acc @ [\<lparr>b_from = i, b_to = min (i + batchSize - 1) c\<rparr>]) @ bs)"
      and cont: "contiguous (i + batchSize) bs c"
      by blast
    show ?thesis
    proof (cases "i + batchSize - 1 \<le> c")
      case le: True
      then have "contiguous i (\<lparr>b_from = i, b_to = min (i + batchSize - 1) c\<rparr> # bs) c"
        using True assms cont by (simp add: min_def)
      then show ?thesis
        using True bs by (subst push_batches.simps) auto
    next
      case gt: False
      then have "c < i + batchSize" by simp
      then have "bs = []"
        using bs by (subst (asm) push_batches.simps) simp
      then have "contiguous i (\<lparr>b_from = i, b_to = min (i + batchSize - 1) c\<rparr> # bs) c"
        using True gt by (simp add: min_def)
      then show ?thesis
        using True bs by (subst push_batches.simps) auto
    qed
  qed
qed

lemma queries_append: "queries (xs @ ys) = queries xs @ queries ys"
  by (induction xs rule: queries.induct) simp_all

lemma queries_consoles: "queries (map Console ms) = []"
  by (induction ms) simp_all

lemma queries_effects:
  "queries (trace (console_log m s)) = queries (trace s)"
  "queries (trace (console_error m e s)) = queries (trace s)"
  "queries (trace (console_error_message m x s)) = queries (trace s)"
  "queries (trace (setTimeout d s)) = queries (trace s)"
  "queries (trace (record_call (QueryFilter f t) s)) = queries (trace s) @ [(f, t)]"
  "queries (trace (record_call Decimals s)) = queries (trace s)"
  "queries (trace (record_call GetBlockNumber s)) = queries (trace s)"
  "queries (trace (rotateRPC s)) = queries (trace s)"
  using rotateRPC_trace [of s]
  by (auto simp: console_log_def console_error_def console_error_message_def setTimeout_def
      record_call_def queries_append queries_consoles)

lemma queries_getDecimals: "queries (trace (snd (getDecimals env s))) = queries (trace s)"
proof (cases "cachedDecimals s")
  case (Some v)
  then show ?thesis by (simp add: getDecimals_hit)
next
  case None
  have "queries (trace (snd (executeWithRetry_from 0 (contract_call Decimals (rpc_decimals env)) 3 s)))
      = queries (trace s)"
    by (rule ewr_keeps [where P = "\<lambda>x. queries (trace x) = queries (trace s)"])
       (simp_all add: queries_effects contract_call_def)
  then show ?thesis
    by (cases "executeWithRetry (contract_call Decimals (rpc_decimals env)) 3 s")
       (simp add: getDecimals_def None executeWithRetry_def split: sum.splits)
qed

lemma queries_processEvents:
  "queries (trace (snd (processEvents env events s))) = queries (trace s)"
  using queries_getDecimals [of env s]
  by (cases "getDecimals env s") (simp add: processEvents_def split: sum.splits jsval.splits)

lemma query_window_ok:
  "rpc_queryFilter env f t (c_provider (contract s)) (clock s) = Inr evs \<Longrightarrow>
   query_window env f t s = (Inr (Val evs), record_call (QueryFilter f t) s)"
  by (simp add: query_window_def ewr_call_ok)

lemma query_batch_ok:
  "rpc_queryFilter env (Some (b_from b)) (Val (b_to b)) (c_provider (contract s)) (clock s) = Inr evs \<Longrightarrow>
   query_batch env b s = (Val evs, record_call (QueryFilter (Some (b_from b)) (Val (b_to b))) s)"
  by (simp add: query_batch_def query_window_ok)

lemma queries_query_batches:
  assumes ok: "\<forall>f t ep tm. \<exists>evs. rpc_queryFilter env f t ep tm = Inr evs"
  shows "queries (trace (snd (query_batches env bs s)))
       = queries (trace s) @ map (\<lambda>b. (Some (b_from b), Val (b_to b))) bs"
proof (induction bs arbitrary: s)
  case Nil
  then show ?case by simp
next
  case (Cons b bs)
  from ok obtain evs where
    "rpc_queryFilter env (Some (b_from b)) (Val (b_to b)) (c_provider (contract s)) (clock s) = Inr evs"
    by blast
  then have q: "query_batch env b s
      = (Val evs, record_call (QueryFilter (Some (b_from b)) (Val (b_to b))) s)"
    by (rule query_batch_ok)
  show ?case
    using Cons.IH [of "record_call (QueryFilter (Some (b_from b)) (Val (b_to b))) s"]
    by (cases "query_batches env bs (record_call (QueryFilter (Some (b_from b)) (Val (b_to b))) s)")
       (simp add: q queries_effects)
qed

lemma queries_query_batched:
  assumes ok: "\<forall>f t ep tm. \<exists>evs. rpc_queryFilter env f t ep tm = Inr evs"
  shows "queries (trace (snd (query_batched env bs s)))
       = queries (trace s) @ map (\<lambda>b. (Some (b_from b), Val (b_to b))) bs"
proof -
  define s0 where "s0 = console_log (''Querying in '' @ digits (length bs) @ '' batches...'') s"
  obtain rs s1 where g: "query_batches env bs s0 = (rs, s1)"
    by (cases "query_batches env bs s0")
  have "queries (trace s0) = queries (trace s)"
    by (simp add: s0_def queries_effects)
  then have "queries (trace s1) = queries (trace s) @ map (\<lambda>b. (Some (b_from b), Val (b_to b))) bs"
    using queries_query_batches [OF ok, of bs s0] by (simp add: g)
  then show ?thesis
    unfolding query_batched_def s0_def [symmetric] g
    by (simp add: queries_processEvents queries_effects)
qed

lemma queries_query_single:
  assumes ok: "\<forall>f t ep tm. \<exists>evs. rpc_queryFilter env f t ep tm = Inr evs"
  shows "queries (trace (snd (query_single env f t s))) = queries (trace s) @ [(f, t)]"
proof -
  from ok obtain evs where "rpc_queryFilter env f t (c_provider (contract s)) (clock s) = Inr evs"
    by blast
  then have "query_window env f t s = (Inr (Val evs), record_call (QueryFilter f t) s)"
    by (rule query_window_ok)
  then show ?thesis
    by (simp add: query_single_def queries_processEvents queries_effects)
qed


lemma head_read:
  assumes "executeWithRetry (provider_call GetBlockNumber (rpc_getBlockNumber env)) 3
      (console_log (''Querying historical events (last '' @ int_str blockRange @ '' blocks)...'') s)
      = (Inr (Val head), s1)"
  shows "queryHistoricalEvents env blockRange batchSize s =
      (if blockRange \<le> batchSize
       then Some (query_single env (Some (head - blockRange)) (Val head) s1)
       else (case push_batches (head - blockRange) head batchSize [] of
               None \<Rightarrow> None
             | Some batches \<Rightarrow> Some (query_batched env batches s1)))"
  unfolding queryHistoricalEvents_def assms
  by (simp add: from_block_def make_batches_def)

text \<open>
  Claim C3. For every head, a range of 120 blocks in batches of 50 is cut into the three
  windows from \<open>head - 120\<close> to \<open>head - 71\<close>, from \<open>head - 70\<close> to \<open>head - 21\<close> and from
  \<open>head - 20\<close> to \<open>head\<close>: each starts one block after the one before ends, the first
  starts at \<open>head - 120\<close> and the last ends at the head. Once the head is read, the call is
  the batched query of these windows, and a call whose range is not above the batch size is
  the single query from \<open>head - blockRange\<close> to \<open>head\<close>. When the provider answers every
  log query, the log queries made are these three, in this order, and that single one.
\<close>

theorem historical_query_windows:
  "make_batches (from_block (Val head) 120) (Val head) 50 =
     Some [\<lparr>b_from = head - 120, b_to = head - 71\<rparr>, \<lparr>b_from = head - 70, b_to = head - 21\<rparr>,
           \<lparr>b_from = head - 20, b_to = head\<rparr>]
   \<and> (executeWithRetry (provider_call GetBlockNumber (rpc_getBlockNumber env)) 3
        (console_log (''Querying historical events (last '' @ int_str 120 @ '' blocks)...'') s)
        = (Inr (Val head), s1) \<longrightarrow>
      queryHistoricalEvents env 120 50 s =
        Some (query_batched env
          [\<lparr>b_from = head - 120, b_to = head - 71\<rparr>, \<lparr>b_from = head - 70, b_to = head - 21\<rparr>,
           \<lparr>b_from = head - 20, b_to = head\<rparr>] s1)
      \<and> ((\<forall>f t ep tm. \<exists>evs. rpc_queryFilter env f t ep tm = Inr evs) \<longrightarrow>
           map_option (\<lambda>r. queries (trace (snd r))) (queryHistoricalEvents env 120 50 s) =
             Some (queries (trace s1) @
               [(Some (head - 120), Val (head - 71)), (Some (head - 70), Val (head - 21)),
                (Some (head - 20), Val head)])))
   \<and> (blockRange \<le> batchSize
      \<and> executeWithRetry (provider_call GetBlockNumber (rpc_getBlockNumber env)) 3
        (console_log (''Querying historical events (last '' @ int_str blockRange @ '' blocks)...'') s)
        = (Inr (Val head), s2) \<longrightarrow>
      queryHistoricalEvents env blockRange batchSize s =
        Some (query_single env (Some (head - blockRange)) (Val head) s2)
      \<and> ((\<forall>f t ep tm. \<exists>evs. rpc_queryFilter env f t ep tm = Inr evs) \<longrightarrow>
           map_option (\<lambda>r. queries (trace (snd r)))
               (queryHistoricalEvents env blockRange batchSize s) =
             Some (queries (trace s2) @ [(Some (head - blockRange), Val head)])))"
proof (intro conjI impI)
  show "make_batches (from_block (Val head) 120) (Val head) 50 =
     Some [\<lparr>b_from = head - 120, b_to = head - 71\<rparr>, \<lparr>b_from = head - 70, b_to = head - 21\<rparr>,
           \<lparr>b_from = head - 20, b_to = head\<rparr>]"
    by (simp add: make_batches_def from_block_def windows_120_50)
next
  assume h: "executeWithRetry (provider_call GetBlockNumber (rpc_getBlockNumber env)) 3
        (console_log (''Querying historical events (last '' @ int_str 120 @ '' blocks)...'') s)
        = (Inr (Val head), s1)"
  show q: "queryHistoricalEvents env 120 50 s =
        Some (query_batched env
          [\<lparr>b_from = head - 120, b_to = head - 71\<rparr>, \<lparr>b_from = head - 70, b_to = head - 21\<rparr>,
           \<lparr>b_from = head - 20, b_to = head\<rparr>] s1)"
    by (simp add: head_read [OF h] windows_120_50)
  assume ok: "\<forall>f t ep tm. \<exists>evs. rpc_queryFilter env f t ep tm = Inr evs"
  show "map_option (\<lambda>r. queries (trace (snd r))) (queryHistoricalEvents env 120 50 s) =
             Some (queries (trace s1) @
               [(Some (head - 120), Val (head - 71)), (Some (head - 70), Val (head - 21)),
                (Some (head - 20), Val head)])"
    by (simp add: q queries_query_batched [OF ok])
next
  assume "blockRange \<le> batchSize
      \<and> executeWithRetry (provider_call GetBlockNumber (rpc_getBlockNumber env)) 3
        (console_log (''Querying historical events (last '' @ int_str blockRange @ '' blocks)...'') s)
        = (Inr (Val head), s2)"
  then have le: "blockRange \<le> batchSize"
    and h: "executeWithRetry (provider_call GetBlockNumber (rpc_getBlockNumber env)) 3
        (console_log (''Querying historical events (last '' @ int_str blockRange @ '' blocks)...'') s)
        = (Inr (Val head), s2)"
    by simp_all
  show q: "queryHistoricalEvents env blockRange batchSize s =
        Some (query_single env (Some (head - blockRange)) (Val head) s2)"
    using le by (simp add: head_read [OF h])
  assume ok: "\<forall>f t ep tm. \<exists>evs. rpc_queryFilter env f t ep tm = Inr evs"
  show "map_option (\<lambda>r. queries (trace (snd r)))
               (queryHistoricalEvents env blockRange batchSize s) =
             Some (queries (trace s2) @ [(Some (head - blockRange), Val head)])"
    by (simp add: q queries_query_single [OF ok])
qed


lemma warm_oracle_queries: "queries (trace warm_oracle) = []"
  by (simp add: warm_oracle_def first_fetch_def record_call_def new_oracle_trace)

theorem historical_query_windows_witness:
  "executeWithRetry (provider_call GetBlockNumber (rpc_getBlockNumber history_env)) 3
     (console_log (''Querying historical events (last '' @ int_str 120 @ '' blocks)...'') warm_oracle)
     = (Inr (Val 1000),
        record_call GetBlockNumber
          (console_log (''Querying historical events (last '' @ int_str 120 @ '' blocks)...'')
             warm_oracle))
   \<and> (\<forall>f t ep tm. \<exists>evs. rpc_queryFilter history_env f t ep tm = Inr evs)
   \<and> (50::int) \<le> 50
   \<and> executeWithRetry (provider_call GetBlockNumber (rpc_getBlockNumber history_env)) 3
     (console_log (''Querying historical events (last '' @ int_str 50 @ '' blocks)...'') warm_oracle)
     = (Inr (Val 1000),
        record_call GetBlockNumber
          (console_log (''Querying historical events (last '' @ int_str 50 @ '' blocks)...'')
             warm_oracle))
   \<and> map_option (\<lambda>r. queries (trace (snd r))) (queryHistoricalEvents history_env 120 50 warm_oracle)
     = Some [(Some 880, Val 929), (Some 930, Val 979), (Some 980, Val 1000)]
   \<and> map_option (\<lambda>r. queries (trace (snd r))) (queryHistoricalEvents history_env 50 50 warm_oracle)
     = Some [(Some 950, Val 1000)]"
proof -
  define s1 where "s1 = record_call GetBlockNumber
      (console_log (''Querying historical events (last '' @ int_str 120 @ '' blocks)...'') warm_oracle)"
  define s2 where "s2 = record_call GetBlockNumber
      (console_log (''Querying historical events (last '' @ int_str 50 @ '' blocks)...'') warm_oracle)"
  have h1: "executeWithRetry (provider_call GetBlockNumber (rpc_getBlockNumber history_env)) 3
     (console_log (''Querying historical events (last '' @ int_str 120 @ '' blocks)...'') warm_oracle)
     = (Inr (Val 1000), s1)"
    unfolding s1_def by (rule ewr_provider_call_ok) (simp_all add: history_env_def healthy_env_def)
  have h2: "executeWithRetry (provider_call GetBlockNumber (rpc_getBlockNumber history_env)) 3
     (console_log (''Querying historical events (last '' @ int_str 50 @ '' blocks)...'') warm_oracle)
     = (Inr (Val 1000), s2)"
    unfolding s2_def by (rule ewr_provider_call_ok) (simp_all add: history_env_def healthy_env_def)
  have ok: "\<forall>f t ep tm. \<exists>evs. rpc_queryFilter history_env f t ep tm = Inr evs"
    by (simp add: history_env_def)
  have q1: "queries (trace s1) = []" and q2: "queries (trace s2) = []"
    by (simp_all add: s1_def s2_def queries_effects warm_oracle_queries)
  note t = historical_query_windows [of 1000 history_env warm_oracle s1 50 50 s2]
  from t h1 ok have a: "map_option (\<lambda>r. queries (trace (snd r)))
      (queryHistoricalEvents history_env 120 50 warm_oracle)
     = Some (queries (trace s1) @
         [(Some (1000 - 120), Val (1000 - 71)), (Some (1000 - 70), Val (1000 - 21)),
          (Some (1000 - 20), Val 1000)])"
    by blast
  from t h2 ok have b: "map_option (\<lambda>r. queries (trace (snd r)))
      (queryHistoricalEvents history_env 50 50 warm_oracle)
     = Some (queries (trace s2) @ [(Some (1000 - 50), Val 1000)])"
    by blast
  from a b h1 h2 ok show ?thesis
    unfolding s1_def s2_def q1 [unfolded s1_def] q2 [unfolded s2_def] by simp
qed

text \<open>The result of the batched query when each window is answered in one way.\<close>

lemma query_batch_result:
  assumes const: "\<forall>ep tm. rpc_queryFilter env (Some (b_from b)) (Val (b_to b)) ep tm = r"
  shows "fst (query_batch env b s) = window_result r"
proof (cases r)
  case (Inr evs)
  then have "rpc_queryFilter env (Some (b_from b)) (Val (b_to b)) (c_provider (contract s)) (clock s)
      = Inr evs"
    using const by simp
  from query_batch_ok [OF this] Inr show ?thesis by (simp add: window_result_def)
next
  case (Inl err)
  show ?thesis
  proof (cases "isRateLimit err \<or> isFilterError err")
    case True
    have "\<forall>ep t. \<exists>e. rpc_queryFilter env (Some (b_from b)) (Val (b_to b)) ep t = Inl e
        \<and> (isRateLimit e \<or> isFilterError e)"
      using const Inl True by simp
    from throttled_call_resolves_undefined [OF this,
        of "QueryFilter (Some (b_from b)) (Val (b_to b))" 3 s]
    show ?thesis
      using Inl True
      by (cases "query_window env (Some (b_from b)) (Val (b_to b)) s")
         (simp add: query_batch_def query_window_def window_result_def)
  next
    case False
    have "\<forall>ep t. rpc_queryFilter env (Some (b_from b)) (Val (b_to b)) ep t = Inl err"
      using const Inl by simp
    from ewr_call_refused [OF this False, of "QueryFilter (Some (b_from b)) (Val (b_to b))" s]
    show ?thesis
      using Inl False by (simp add: query_batch_def query_window_def window_result_def)
  qed
qed

lemma query_batches_result:
  assumes const: "\<forall>b \<in> set bs. \<forall>ep tm. rpc_queryFilter env (Some (b_from b)) (Val (b_to b)) ep tm = resp b"
  shows "fst (query_batches env bs s) = map (\<lambda>b. window_result (resp b)) bs"
  using const
proof (induction bs arbitrary: s)
  case Nil
  then show ?case by simp
next
  case (Cons b bs)
  obtain r s1 where g: "query_batch env b s = (r, s1)"
    by (cases "query_batch env b s")
  have "\<forall>ep tm. rpc_queryFilter env (Some (b_from b)) (Val (b_to b)) ep tm = resp b"
    using Cons.prems by simp
  from query_batch_result [OF this, of s] have r: "r = window_result (resp b)"
    by (simp add: g)
  have "fst (query_batches env bs s1) = map (\<lambda>b. window_result (resp b)) bs"
    using Cons.prems by (intro Cons.IH) simp
  then show ?case
    by (cases "query_batches env bs s1") (simp add: g r)
qed

lemma query_batched_result:
  assumes const: "\<forall>b \<in> set bs. \<forall>ep tm. rpc_queryFilter env (Some (b_from b)) (Val (b_to b)) ep tm = resp b"
    and warm: "cachedDecimals s = Some decimals"
  shows "fst (query_batched env bs s)
       = map_events env decimals (flat (map (\<lambda>b. window_result (resp b)) bs))"
proof -
  define s0 where "s0 = console_log (''Querying in '' @ digits (length bs) @ '' batches...'') s"
  obtain rs s1 where g: "query_batches env bs s0 = (rs, s1)"
    by (cases "query_batches env bs s0")
  have rs: "rs = map (\<lambda>b. window_result (resp b)) bs"
    using query_batches_result [OF const, of s0] by (simp add: g)
  have "cachedDecimals (snd (query_batches env bs s0)) = Some decimals
      \<and> calls_of Decimals (snd (query_batches env bs s0)) = calls_of Decimals s0"
    by (rule query_batches_stable [OF decimals_kept_stable]) (simp add: s0_def warm cache_effects)
  then have "cachedDecimals s1 = Some decimals" by (simp add: g)
  then have hit: "getDecimals env (console_log m s1) = (Inr decimals, console_log m s1)" for m
    by (simp add: getDecimals_hit cache_effects)
  show ?thesis
    unfolding query_batched_def s0_def [symmetric] g
    by (simp add: processEvents_def hit rs)
qed

text \<open>The example range from the warm object: the head is read and the three windows are queried.\<close>

lemma history_head:
  assumes "rpc_getBlockNumber env = rpc_getBlockNumber healthy_env"
  shows "queryHistoricalEvents env 120 50 warm_oracle =
     Some (query_batched env
        [\<lparr>b_from = 880, b_to = 929\<rparr>, \<lparr>b_from = 930, b_to = 979\<rparr>, \<lparr>b_from = 980, b_to = 1000\<rparr>]
        (record_call GetBlockNumber
           (console_log (''Querying historical events (last '' @ int_str 120 @ '' blocks)...'')
              warm_oracle)))"
proof -
  have "executeWithRetry (provider_call GetBlockNumber (rpc_getBlockNumber env)) 3
      (console_log (''Querying historical events (last '' @ int_str 120 @ '' blocks)...'') warm_oracle)
      = (Inr (Val 1000),
         record_call GetBlockNumber
           (console_log (''Querying historical events (last '' @ int_str 120 @ '' blocks)...'')
              warm_oracle))"
    by (rule ewr_provider_call_ok) (simp_all add: assms healthy_env_def)
  from head_read [OF this, of 50] windows_120_50 [of 1000] show ?thesis by simp
qed

text \<open>
  Claim C6, on the code: a range of 120 blocks in batches of 50 with the head at block 1000,
  where the provider throttles the second window at every attempt and answers the other
  two. The second batch resolves with \<open>undefined\<close>, \<open>flat\<close> keeps it as an element, and
  \<open>processEvents\<close> throws a \<open>TypeError\<close> on it: the call rejects and the records of the
  other two windows are lost.
\<close>

theorem throttled_window_rejects_query:
  "map_option fst (queryHistoricalEvents gap_env 120 50 warm_oracle)
     = Some (Inl (TypeError ''args''))"
proof -
  define resp where "resp = (\<lambda>b :: batch. if b_from b = 930 then Inl rate_limited
      else (Inr (window_events (Some (b_from b))) :: js_error + raw_event list))"
  have const: "\<forall>b \<in> set [\<lparr>b_from = 880, b_to = 929\<rparr>, \<lparr>b_from = 930, b_to = 979\<rparr>,
        \<lparr>b_from = 980, b_to = 1000\<rparr>].
      \<forall>ep tm. rpc_queryFilter gap_env (Some (b_from b)) (Val (b_to b)) ep tm = resp b"
    by (simp add: gap_env_def resp_def)
  have warm: "cachedDecimals (record_call GetBlockNumber
      (console_log (''Querying historical events (last '' @ int_str 120 @ '' blocks)...'')
         warm_oracle)) = Some (Val 6)"
    by (simp add: record_call_fields cache_effects warm_oracle_fields)
  have stamp: "date_of_seconds gap_env x = Inr ''2023-11-14T22:13:20.000Z''" for x
    by (simp add: gap_env_def healthy_env_def)
  have "fst (query_batched gap_env
        [\<lparr>b_from = 880, b_to = 929\<rparr>, \<lparr>b_from = 930, b_to = 979\<rparr>, \<lparr>b_from = 980, b_to = 1000\<rparr>]
        (record_call GetBlockNumber
           (console_log (''Querying historical events (last '' @ int_str 120 @ '' blocks)...'')
              warm_oracle)))
      = map_events gap_env (Val 6)
          [Val (example_event 880), Undefined, Val (example_event 980)]"
    unfolding query_batched_result [OF const warm]
    by (simp add: resp_def window_result_def rate_limited_transient window_events_def)
  also have "\<dots> = Inl (TypeError ''args'')"
    by (simp add: process_event_def Let_def stamp)
  finally show ?thesis
    by (simp add: history_head gap_env_def)
qed

text \<open>
  A window that is refused with an error that is not transient is caught by its own
  \<open>catch\<close>: the records of the other windows are returned, in the order of the windows.
\<close>

lemma refused_window_is_skipped:
  "map_option fst (queryHistoricalEvents broken_env 120 50 warm_oracle)
     = Some (map_events broken_env (Val 6) [Val (example_event 880), Val (example_event 980)])"
  "map_option (map_sum id (map h_blockNumber))
     (map_option fst (queryHistoricalEvents broken_env 120 50 warm_oracle)) = Some (Inr [880, 980])"
proof -
  define resp where "resp = (\<lambda>b :: batch. if b_from b = 930 then Inl unreachable
      else (Inr (window_events (Some (b_from b))) :: js_error + raw_event list))"
  have const: "\<forall>b \<in> set [\<lparr>b_from = 880, b_to = 929\<rparr>, \<lparr>b_from = 930, b_to = 979\<rparr>,
        \<lparr>b_from = 980, b_to = 1000\<rparr>].
      \<forall>ep tm. rpc_queryFilter broken_env (Some (b_from b)) (Val (b_to b)) ep tm = resp b"
    by (simp add: broken_env_def resp_def)
  have warm: "cachedDecimals (record_call GetBlockNumber
      (console_log (''Querying historical events (last '' @ int_str 120 @ '' blocks)...'')
         warm_oracle)) = Some (Val 6)"
    by (simp add: record_call_fields cache_effects warm_oracle_fields)
  have stamp: "date_of_seconds broken_env x = Inr ''2023-11-14T22:13:20.000Z''" for x
    by (simp add: broken_env_def healthy_env_def)
  have "fst (query_batched broken_env
        [\<lparr>b_from = 880, b_to = 929\<rparr>, \<lparr>b_from = 930, b_to = 979\<rparr>, \<lparr>b_from = 980, b_to = 1000\<rparr>]
        (record_call GetBlockNumber
           (console_log (''Querying historical events (last '' @ int_str 120 @ '' blocks)...'')
              warm_oracle)))
      = map_events broken_env (Val 6) [Val (example_event 880), Val (example_event 980)]"
    unfolding query_batched_result [OF const warm]
    by (simp add: resp_def window_result_def unreachable_not_transient window_events_def)
  then show a: "map_option fst (queryHistoricalEvents broken_env 120 50 warm_oracle)
     = Some (map_events broken_env (Val 6) [Val (example_event 880), Val (example_event 980)])"
    by (simp add: history_head broken_env_def)
  show "map_option (map_sum id (map h_blockNumber))
     (map_option fst (queryHistoricalEvents broken_env 120 50 warm_oracle)) = Some (Inr [880, 980])"
    unfolding a by (simp add: process_event_def Let_def stamp example_event_def)
qed

end
